theory Spec2Isabelle
  imports Main "HOL-Library.Multiset"
begin

section \<open>Data model of deploy.js\<close>

text \<open>
  The deployment script talks to four collaborators: the Solidity compiler (solc), the
  chain node (through ethers), the JavaScript runtime (clock, random numbers, timers)
  and the terminal display. Every interaction with one of them is recorded as an event,
  and the history of events so far is the state of the run (a collaborator is asked
  with the history before the call; the event of the call is added after). The answers of the
  collaborators are parameters of the model: each is a function of the history and of
  the arguments of the call, so that a theorem stated for every environment covers every
  way the compiler, the node, the clock and the random generator can behave.
\<close>

type_synonym address = string

text \<open>An ethers Wallet: the address it signs for (the key itself plays no role here).\<close>

record wallet =
  wallet_address :: address

text \<open>An element of the array returned by generateUniqueNames.\<close>

record tokenName =
  name :: string
  symbol :: string

text \<open>The object returned by compileContract.\<close>

record artifact =
  abi :: string
  bytecode :: string

text \<open>
  The contract object returned by factory.deploy: its deployment transaction hash and
  the address it will have, which ethers computes locally from sender and nonce.
\<close>

record pendingContract =
  txHash :: string
  pendingAddress :: address

text \<open>new ethers.Contract(deployedAddress, abi, wallet)\<close>

record contract =
  target :: address
  contract_abi :: string
  runner :: wallet

text \<open>
  What a throw carries. The three Error objects deployToken builds itself have a
  constructor each; Thrown is an exception of a collaborator that propagates unchanged
  (the string is its message).
\<close>

datatype error =
    BalanceTooLow
  | DeployError string
  | WaitForDeploymentError string
  | Thrown string

text \<open>
  One constructor per call site of log; the display formatting is left out, and so is
  the time stamp that log puts in front of the line.
\<close>

datatype logmsg =
    LogBalance address int
  | LogDeploying string string
  | LogAwaiting string
  | LogDeployedAt address
  | LogSent int address
  | LogSendError address error
  | LogCycleStart int
  | LogUsingWallet address
  | LogGeneratedNames "string list"
  | LogSlotDeployed nat string string address
  | LogSlotFailed string error
  | LogFatal error

datatype event =
    EvCompile string
  | EvGetBalance address
  | EvDeploy address string string int
  | EvWaitForDeployment string
  | EvTransfer address address int
  | EvTxWait string
  | EvSortRandom
  | EvRandom
  | EvNow int
  | EvGenerateNames nat
  | EvLog logmsg
  | EvStatus "int option"
  | EvWait nat
  | EvExit nat

type_synonym world = "event list"

text \<open>
  The environment: the module-level constants of deploy.js (tokenSource, addresses,
  wallets) and the collaborators. A collaborator that can throw answers with a sum,
  Inl the message of the exception.

  generateUniqueNames lives in utils/randomName.js, which is not among the sources; it
  is taken as a parameter that returns an array of names or throws.

  contractFactory is the constructor new ethers.ContractFactory(abi, bytecode, wallet):
  it checks the ABI and the bytecode and throws on an invalid one (a bytecode that is
  not a hexadecimal string, for instance). It makes no call to a collaborator, so it is
  a function of the artifact alone and leaves no event.

  sortRandom is Array.prototype.sort with the comparator 0.5 - Math.random(), applied to
  a copy of the array; random50 is Math.floor(Math.random() * 50); now is the time value
  of new Date(), in milliseconds since 1970 (new Date() is always a valid date).
\<close>

record env =
  tokenSource :: string
  addresses :: "address list"
  wallets :: "wallet list"
  solc_compile :: "world \<Rightarrow> string \<Rightarrow> string + artifact"
  contractFactory :: "string \<Rightarrow> string \<Rightarrow> string + unit"
  getBalance :: "world \<Rightarrow> address \<Rightarrow> string + int"
  factory_deploy :: "world \<Rightarrow> wallet \<Rightarrow> string \<Rightarrow> string \<Rightarrow> int \<Rightarrow> string + pendingContract"
  waitForDeployment :: "world \<Rightarrow> pendingContract \<Rightarrow> string + unit"
  transfer :: "world \<Rightarrow> contract \<Rightarrow> address \<Rightarrow> int \<Rightarrow> string + string"
  tx_wait :: "world \<Rightarrow> string \<Rightarrow> string + unit"
  sortRandom :: "world \<Rightarrow> address list \<Rightarrow> address list"
  random50 :: "world \<Rightarrow> nat"
  now :: "world \<Rightarrow> int"
  generateUniqueNames :: "world \<Rightarrow> nat \<Rightarrow> string + tokenName list"

text \<open>
  The result of an async function: it returns a value or throws, and in both cases the
  events that happened before stay in the history.
\<close>

datatype 'a res = Return 'a world | Throw error world

fun world_of :: "'a res \<Rightarrow> world" where
  "world_of (Return _ w) = w"
| "world_of (Throw _ w) = w"

fun returns :: "'a res \<Rightarrow> bool" where
  "returns (Return _ _) = True"
| "returns (Throw _ _) = False"

section \<open>ethers.parseUnits on the literals of the script\<close>

text \<open>
  parseUnits(value, decimals) reads a decimal string as a fixed-point number with the
  given number of decimals and returns it as an integer of the smallest unit. It throws
  on a string that is not a decimal number or has more fractional digits than decimals
  (None here). Only unsigned literals occur in the script, so no sign is read.
\<close>

definition isDigit :: "char \<Rightarrow> bool" where
  "isDigit c = (c \<in> set ''0123456789'')"

definition digitVal :: "char \<Rightarrow> nat" where
  "digitVal c = of_char c - of_char CHR ''0''"

definition decimalVal :: "string \<Rightarrow> nat" where
  "decimalVal s = foldl (\<lambda>acc c. 10 * acc + digitVal c) 0 s"

definition parseUnits :: "string \<Rightarrow> nat \<Rightarrow> int option" where
  "parseUnits s decimals =
     (let whole = takeWhile (\<lambda>c. c \<noteq> CHR ''.'') s;
          rest = dropWhile (\<lambda>c. c \<noteq> CHR ''.'') s;
          frac = (case rest of [] \<Rightarrow> [] | _ # f \<Rightarrow> f)
      in if (whole = [] \<and> frac = []) \<or> \<not> list_all isDigit whole \<or> \<not> list_all isDigit frac
            \<or> decimals < length frac
         then None
         else Some (int (decimalVal whole * 10 ^ decimals
                         + decimalVal frac * 10 ^ (decimals - length frac))))"

definition parseEther :: "string \<Rightarrow> int option" where
  "parseEther s = parseUnits s 18"

section \<open>The functions of deploy.js\<close>

definition log :: "logmsg \<Rightarrow> world \<Rightarrow> world" where
  "log m w = w @ [EvLog m]"

text \<open>
  compileContract: one call of solc.compile on the token source, every time it is
  called. A failure of the compiler, of JSON.parse or of the lookup of the Token
  contract in the output is a throw.
\<close>

definition compileContract :: "env \<Rightarrow> world \<Rightarrow> artifact res" where
  "compileContract e w =
     (case solc_compile e w (tokenSource e) of
        Inl m \<Rightarrow> Throw (Thrown m) (w @ [EvCompile (tokenSource e)])
      | Inr a \<Rightarrow> Return a (w @ [EvCompile (tokenSource e)]))"

text \<open>
  deployToken, statement by statement: compile, build the factory (the constructor may
  throw), parse the initial supply, query the balance, log it, compare with
  parseEther("0.000001"), log, deploy, log the hash, wait for the deployment, read the
  address, log it, return the contract.
\<close>

definition deployToken :: "env \<Rightarrow> wallet \<Rightarrow> string \<Rightarrow> string \<Rightarrow> world \<Rightarrow> contract res" where
  "deployToken e wal nm sy w =
     (case compileContract e w of
        Throw err w1 \<Rightarrow> Throw err w1
      | Return art w1 \<Rightarrow>
        (case contractFactory e (abi art) (bytecode art) of
           Inl m \<Rightarrow> Throw (Thrown m) w1
         | Inr _ \<Rightarrow>
          (case parseUnits ''1000'' 18 of
             None \<Rightarrow> Throw (Thrown ''invalid FixedNumber string value'') w1
           | Some initialSupply \<Rightarrow>
               (case getBalance e w1 (wallet_address wal) of
                  Inl m \<Rightarrow> Throw (Thrown m) (w1 @ [EvGetBalance (wallet_address wal)])
                | Inr balance \<Rightarrow>
                    let w2 = log (LogBalance (wallet_address wal) balance)
                               (w1 @ [EvGetBalance (wallet_address wal)])
                    in (case parseEther ''0.000001'' of
                          None \<Rightarrow> Throw (Thrown ''invalid FixedNumber string value'') w2
                        | Some minBalance \<Rightarrow>
                            if balance < minBalance then Throw BalanceTooLow w2
                            else
                              let w3 = log (LogDeploying nm sy) w2;
                                  w4 = w3 @ [EvDeploy (wallet_address wal) nm sy initialSupply]
                              in (case factory_deploy e w3 wal nm sy initialSupply of
                                    Inl m \<Rightarrow> Throw (DeployError m) w4
                                  | Inr pc \<Rightarrow>
                                      let w5 = log (LogAwaiting (txHash pc)) w4;
                                          w6 = w5 @ [EvWaitForDeployment (txHash pc)]
                                      in (case waitForDeployment e w5 pc of
                                            Inl m \<Rightarrow> Throw (WaitForDeploymentError m) w6
                                          | Inr _ \<Rightarrow>
                                              Return \<lparr>target = pendingAddress pc,
                                                      contract_abi = abi art,
                                                      runner = wal\<rparr>
                                                (log (LogDeployedAt (pendingAddress pc)) w6))))))))"

text \<open>
  The body of the try block in the loop of sendToRandomAddresses: contract.transfer,
  tx.wait, then the log line of a successful transfer.
\<close>

definition transferBody :: "env \<Rightarrow> contract \<Rightarrow> address \<Rightarrow> int \<Rightarrow> world \<Rightarrow> unit res" where
  "transferBody e c to amount w =
     (case transfer e w c to amount of
        Inl m \<Rightarrow> Throw (Thrown m) (w @ [EvTransfer (target c) to amount])
      | Inr tx \<Rightarrow>
          let w1 = w @ [EvTransfer (target c) to amount]
          in (case tx_wait e w1 tx of
                Inl m \<Rightarrow> Throw (Thrown m) (w1 @ [EvTxWait tx])
              | Inr _ \<Rightarrow> Return () (log (LogSent amount to) (w1 @ [EvTxWait tx]))))"

text \<open>
  One iteration of the loop over targets: draw the amount (1 to 50 tokens of 18
  decimals), run the try block, and in the catch block log the error.
\<close>

definition transferStep :: "env \<Rightarrow> contract \<Rightarrow> address \<Rightarrow> world \<Rightarrow> unit res" where
  "transferStep e c to w =
     (let amount = int (random50 e w mod 50 + 1) * 10 ^ 18;
          w1 = w @ [EvRandom]
      in (case transferBody e c to amount w1 of
            Throw err w2 \<Rightarrow> Return () (log (LogSendError to err) w2)
          | Return _ w2 \<Rightarrow> Return () w2))"

text \<open>for (const to of targets) { ... }\<close>

fun transferLoop :: "env \<Rightarrow> contract \<Rightarrow> address list \<Rightarrow> world \<Rightarrow> unit res" where
  "transferLoop e c [] w = Return () w"
| "transferLoop e c (to # rest) w =
     (case transferStep e c to w of
        Throw err w1 \<Rightarrow> Throw err w1
      | Return _ w1 \<Rightarrow> transferLoop e c rest w1)"

text \<open>
  sendToRandomAddresses: shuffle a copy of the pool with the random comparator, keep
  the first seven (slice(0, 7)), transfer to each.
\<close>

definition sendToRandomAddresses :: "env \<Rightarrow> contract \<Rightarrow> world \<Rightarrow> unit res" where
  "sendToRandomAddresses e c w =
     (let targets = take 7 (sortRandom e w (addresses e))
      in transferLoop e c targets (w @ [EvSortRandom]))"

text \<open>
  The try block of one slot of mainLoop: deployToken, the log line of the deployment,
  sendToRandomAddresses.
\<close>

definition slotBody :: "env \<Rightarrow> wallet \<Rightarrow> nat \<Rightarrow> tokenName \<Rightarrow> world \<Rightarrow> unit res" where
  "slotBody e wal i n w =
     (case deployToken e wal (name n) (symbol n) w of
        Throw err w1 \<Rightarrow> Throw err w1
      | Return c w1 \<Rightarrow>
          sendToRandomAddresses e c
            (log (LogSlotDeployed (i + 1) (name n) (symbol n) (target c)) w1))"

text \<open>
  One iteration of the loop over names: the try block, the catch block that logs the
  failure, then wait(3000).
\<close>

definition slotStep :: "env \<Rightarrow> wallet \<Rightarrow> nat \<Rightarrow> tokenName \<Rightarrow> world \<Rightarrow> unit res" where
  "slotStep e wal i n w =
     (let w2 = (case slotBody e wal i n w of
                  Throw err w1 \<Rightarrow> log (LogSlotFailed (name n) err) w1
                | Return _ w1 \<Rightarrow> w1)
      in Return () (w2 @ [EvWait 3000]))"

text \<open>
  for (let i = 0; i < names.length; i++): the list argument is what is left of names
  from index i on.
\<close>

fun slotLoop :: "env \<Rightarrow> wallet \<Rightarrow> nat \<Rightarrow> tokenName list \<Rightarrow> world \<Rightarrow> unit res" where
  "slotLoop e wal i [] w = Return () w"
| "slotLoop e wal i (n # rest) w =
     (case slotStep e wal i n w of
        Throw err w1 \<Rightarrow> Throw err w1
      | Return _ w1 \<Rightarrow> slotLoop e wal (i + 1) rest w1)"

text \<open>
  One iteration of the loop over wallets: log the wallet, generateUniqueNames(5), log
  the names, run the slots. The call of generateUniqueNames is outside every try block.
\<close>

definition walletStep :: "env \<Rightarrow> wallet \<Rightarrow> world \<Rightarrow> unit res" where
  "walletStep e wal w =
     (let w1 = log (LogUsingWallet (wallet_address wal)) w
      in (case generateUniqueNames e w1 5 of
            Inl m \<Rightarrow> Throw (Thrown m) (w1 @ [EvGenerateNames 5])
          | Inr names \<Rightarrow>
              slotLoop e wal 0 names
                (log (LogGeneratedNames (map name names)) (w1 @ [EvGenerateNames 5]))))"

text \<open>for (const wallet of wallets) { ... }\<close>

fun walletLoop :: "env \<Rightarrow> wallet list \<Rightarrow> world \<Rightarrow> unit res" where
  "walletLoop e [] w = Return () w"
| "walletLoop e (wal # rest) w =
     (case walletStep e wal w of
        Throw err w1 \<Rightarrow> Throw err w1
      | Return _ w1 \<Rightarrow> walletLoop e rest w1)"

text \<open>
  Dates. A Date object holds a time value between -8.64 * 10^15 and 8.64 * 10^15
  milliseconds or is an Invalid Date; new Date(number) gives the Invalid Date (None)
  for a number outside that range. A comparison with an Invalid Date is false, and
  toISOString throws a RangeError on one.
\<close>

definition maxTime :: int where
  "maxTime = 8640000000000000"

definition timeClip :: "int \<Rightarrow> int option" where
  "timeClip t = (if - maxTime \<le> t \<and> t \<le> maxTime then Some t else None)"

text \<open>new Date() < nextRun, for the time value t of new Date().\<close>

fun earlier :: "int \<Rightarrow> int option \<Rightarrow> bool" where
  "earlier t None = False"
| "earlier t (Some n) = (t < n)"

text \<open>new Date(nextRun - new Date()), for the time value t of new Date().\<close>

fun remainingDate :: "int option \<Rightarrow> int \<Rightarrow> int option" where
  "remainingDate None t = None"
| "remainingDate (Some n) t = timeClip (n - t)"

text \<open>
  The countdown loop, while (new Date() < nextRun): each iteration reads the clock for
  the test, reads it again for the remaining time, turns the remaining time into text
  with toISOString (which throws when the remaining time is no valid date), shows it in
  the status box and waits one second. The loop runs as long as the clock says so,
  hence the fuel: Waiting is the state reached when the fuel is used up and the loop is
  still going, Elapsed the state in which the test has failed and the loop is left,
  Failed the exception of toISOString.
\<close>

datatype wait_result = Elapsed world | Waiting world | Failed error world

fun waitLoop :: "nat \<Rightarrow> env \<Rightarrow> int option \<Rightarrow> world \<Rightarrow> wait_result" where
  "waitLoop 0 e nextRun w = Waiting w"
| "waitLoop (Suc k) e nextRun w =
     (let t = now e w;
          w1 = w @ [EvNow t]
      in if earlier t nextRun
         then let t2 = now e w1;
                  w2 = w1 @ [EvNow t2]
              in (case remainingDate nextRun t2 of
                    None \<Rightarrow> Failed (Thrown ''Invalid time value'') w2
                  | Some r \<Rightarrow>
                      let w3 = w2 @ [EvStatus (Some r)];
                          w4 = w3 @ [EvWait 1000]
                      in waitLoop k e nextRun w4)
         else Elapsed w1)"

text \<open>
  mainLoop after updateStatus: while (true). One round reads the clock, logs the start
  of the cycle, runs the wallets, computes nextRun = new Date(now + 24 * 60 * 60 * 1000)
  and counts down. The loop has no exit of its own: it is left only by an exception
  (Rejected). The first number bounds the rounds and the second the iterations of each
  countdown: BetweenCycles is the state reached when the rounds are used up,
  CountingDown the one reached when a countdown has used up its iterations.
\<close>

datatype loop_result = BetweenCycles world | CountingDown world | Rejected error world

fun mainRounds :: "nat \<Rightarrow> nat \<Rightarrow> env \<Rightarrow> world \<Rightarrow> loop_result" where
  "mainRounds 0 patience e w = BetweenCycles w"
| "mainRounds (Suc k) patience e w =
     (let t = now e w;
          w1 = log (LogCycleStart t) (w @ [EvNow t])
      in (case walletLoop e (wallets e) w1 of
            Throw err w2 \<Rightarrow> Rejected err w2
          | Return _ w2 \<Rightarrow>
              (case waitLoop patience e (timeClip (t + 24 * 60 * 60 * 1000)) w2 of
                 Waiting w3 \<Rightarrow> CountingDown w3
               | Failed err w3 \<Rightarrow> Rejected err w3
               | Elapsed w3 \<Rightarrow> mainRounds k patience e w3)))"

definition mainLoop :: "nat \<Rightarrow> nat \<Rightarrow> env \<Rightarrow> world \<Rightarrow> loop_result" where
  "mainLoop rounds patience e w = mainRounds rounds patience e (w @ [EvStatus None])"

text \<open>
  The last statement of the module: mainLoop().catch(err => { log(...); process.exit(1) }).
  The process is either still running or has exited with a status. The key handler of
  the screen, which exits with status 0 when the user presses Q, ESC or Ctrl-C, is an
  event from outside and is not part of the run.
\<close>

datatype process = Running world | Exited nat world

definition start :: "nat \<Rightarrow> nat \<Rightarrow> env \<Rightarrow> process" where
  "start rounds patience e =
     (case mainLoop rounds patience e [] of
        BetweenCycles w \<Rightarrow> Running w
      | CountingDown w \<Rightarrow> Running w
      | Rejected err w \<Rightarrow> Exited 1 (log (LogFatal err) w @ [EvExit 1]))"

section \<open>Reading a history\<close>

text \<open>What a function adds to the history it was started in.\<close>

definition emitted :: "world \<Rightarrow> world \<Rightarrow> event list" where
  "emitted w w' = drop (length w) w'"

fun isCompile :: "event \<Rightarrow> bool" where
  "isCompile (EvCompile _) = True"
| "isCompile _ = False"

text \<open>The calls that submit a transaction: contract creation and transfer.\<close>

fun isSubmission :: "event \<Rightarrow> bool" where
  "isSubmission (EvDeploy _ _ _ _) = True"
| "isSubmission (EvTransfer _ _ _) = True"
| "isSubmission _ = False"

text \<open>Every call that reaches the chain node.\<close>

fun isChainCall :: "event \<Rightarrow> bool" where
  "isChainCall (EvGetBalance _) = True"
| "isChainCall (EvDeploy _ _ _ _) = True"
| "isChainCall (EvWaitForDeployment _) = True"
| "isChainCall (EvTransfer _ _ _) = True"
| "isChainCall (EvTxWait _) = True"
| "isChainCall _ = False"

fun isDeploy :: "event \<Rightarrow> bool" where
  "isDeploy (EvDeploy _ _ _ _) = True"
| "isDeploy _ = False"

fun isSortRandom :: "event \<Rightarrow> bool" where
  "isSortRandom EvSortRandom = True"
| "isSortRandom _ = False"

fun isGenerateNames :: "event \<Rightarrow> bool" where
  "isGenerateNames (EvGenerateNames _) = True"
| "isGenerateNames _ = False"

text \<open>The recipient of a transfer call.\<close>

fun transferTo :: "event \<Rightarrow> address option" where
  "transferTo (EvTransfer _ to _) = Some to"
| "transferTo _ = None"

text \<open>The contract a transfer call is made on.\<close>

fun transferOn :: "event \<Rightarrow> address option" where
  "transferOn (EvTransfer c _ _) = Some c"
| "transferOn _ = None"

text \<open>
  The outcome sendToRandomAddresses records for a recipient: the log line of the try
  block (True) or of the catch block (False).
\<close>

fun sendOutcome :: "event \<Rightarrow> (address \<times> bool) option" where
  "sendOutcome (EvLog (LogSent _ to)) = Some (to, True)"
| "sendOutcome (EvLog (LogSendError to _)) = Some (to, False)"
| "sendOutcome _ = None"

text \<open>
  The outcome mainLoop records for a slot: the log line after deployToken (True) or the
  one of the catch block (False).
\<close>

fun slotOutcome :: "event \<Rightarrow> (string \<times> bool) option" where
  "slotOutcome (EvLog (LogSlotDeployed _ nm _ _)) = Some (nm, True)"
| "slotOutcome (EvLog (LogSlotFailed nm _)) = Some (nm, False)"
| "slotOutcome _ = None"

text \<open>
  The two kinds of event that pacing is about: the start of a deployment attempt (the
  compilation deployToken begins with) and the delay of 3000 ms.
\<close>

fun isPacing :: "event \<Rightarrow> bool" where
  "isPacing (EvCompile _) = True"
| "isPacing (EvWait ms) = (ms = 3000)"
| "isPacing _ = False"

text \<open>The countdown: a status line with the remaining time, and the delay of one second.\<close>

fun isCountdown :: "event \<Rightarrow> bool" where
  "isCountdown (EvStatus r) = (r \<noteq> None)"
| "isCountdown (EvWait ms) = (ms = 1000)"
| "isCountdown _ = False"

fun cycleStart :: "event \<Rightarrow> int option" where
  "cycleStart (EvLog (LogCycleStart t)) = Some t"
| "cycleStart _ = None"

fun clockRead :: "event \<Rightarrow> int option" where
  "clockRead (EvNow t) = Some t"
| "clockRead _ = None"

text \<open>The wallet a pass over the wallets has turned to.\<close>

fun walletUsed :: "event \<Rightarrow> address option" where
  "walletUsed (EvLog (LogUsingWallet a)) = Some a"
| "walletUsed _ = None"

fun loop_world :: "loop_result \<Rightarrow> world" where
  "loop_world (BetweenCycles w) = w"
| "loop_world (CountingDown w) = w"
| "loop_world (Rejected _ w) = w"

fun wait_world :: "wait_result \<Rightarrow> world" where
  "wait_world (Elapsed w) = w"
| "wait_world (Waiting w) = w"
| "wait_world (Failed _ w) = w"

text \<open>The value an async function resolves to, if it does.\<close>

fun returned :: "'a res \<Rightarrow> 'a option" where
  "returned (Return v _) = Some v"
| "returned (Throw _ _) = None"

fun process_world :: "process \<Rightarrow> world" where
  "process_world (Running w) = w"
| "process_world (Exited _ w) = w"

text \<open>
  A scan of a history for an early cycle. The state is the start time of the running
  cycle as long as no clock read has reached that time plus 24 hours, and None once one
  has (or before the first cycle). A cycle start is accepted only in state None.
\<close>

definition day :: int where
  "day = 24 * 60 * 60 * 1000"

fun gate :: "int option \<Rightarrow> event \<Rightarrow> int option" where
  "gate s (EvLog (LogCycleStart t)) = Some t"
| "gate (Some t0) (EvNow t) = (if t0 + day \<le> t then None else Some t0)"
| "gate s _ = s"

fun gated :: "int option \<Rightarrow> event list \<Rightarrow> bool" where
  "gated s [] = True"
| "gated s (ev # evs) = ((cycleStart ev = None \<or> s = None) \<and> gated (gate s ev) evs)"

text \<open>
  The events that play no role at the level of a cycle: neither the start of an attempt
  nor a delay, neither a clock read nor the start of a cycle, neither a call of the
  name generator nor a countdown step nor the turn to a wallet.
\<close>

definition calm :: "event \<Rightarrow> bool" where
  "calm ev = (\<not> isPacing ev \<and> cycleStart ev = None \<and> clockRead ev = None
              \<and> \<not> isGenerateNames ev \<and> \<not> isCountdown ev \<and> walletUsed ev = None)"

text \<open>
  The events that are not the scheduler's: no start of a cycle, no clock read, no
  countdown step.
\<close>

definition steady :: "event \<Rightarrow> bool" where
  "steady ev = (cycleStart ev = None \<and> clockRead ev = None \<and> \<not> isCountdown ev)"

text \<open>
  A clock that stays between 1970 and one day before the end of the range of Date.
\<close>

definition ordinaryClock :: "env \<Rightarrow> bool" where
  "ordinaryClock e = (\<forall>w. 0 \<le> now e w \<and> now e w + day \<le> maxTime)"

text \<open>
  The names the generator has returned at its calls in a piece of history evs that
  follows the history w, in order (a call that threw has returned none).
\<close>

fun generatedNames :: "env \<Rightarrow> world \<Rightarrow> event list \<Rightarrow> string list" where
  "generatedNames e w [] = []"
| "generatedNames e w (ev # evs) =
     (if isGenerateNames ev
      then (case generateUniqueNames e w 5 of Inl _ \<Rightarrow> [] | Inr ns \<Rightarrow> map name ns)
      else [])
     @ generatedNames e (w @ [ev]) evs"

text \<open>No call of the generator in the piece of history evs that follows w has thrown.\<close>

fun generatorHeld :: "env \<Rightarrow> world \<Rightarrow> event list \<Rightarrow> bool" where
  "generatorHeld e w [] = True"
| "generatorHeld e w (ev # evs) =
     ((isGenerateNames ev \<longrightarrow> \<not> isl (generateUniqueNames e w 5))
      \<and> generatorHeld e (w @ [ev]) evs)"

text \<open>
  Whether the try block of a recipient goes through, in the history w in which the
  turn of the recipient comes: transfer and tx.wait both return.
\<close>

definition sent :: "env \<Rightarrow> contract \<Rightarrow> address \<Rightarrow> world \<Rightarrow> bool" where
  "sent e c to w =
     (let amount = int (random50 e w mod 50 + 1) * 10 ^ 18
      in (case transfer e (w @ [EvRandom]) c to amount of
            Inl _ \<Rightarrow> False
          | Inr tx \<Rightarrow>
              (case tx_wait e (w @ [EvRandom, EvTransfer (target c) to amount]) tx of
                 Inl _ \<Rightarrow> False
               | Inr _ \<Rightarrow> True)))"

text \<open>
  The outcomes to expect for a sequence of recipients: each recipient with the fate of
  its own try block, in the history that the recipients before it have left.
\<close>

fun expectedOutcomes :: "env \<Rightarrow> contract \<Rightarrow> address list \<Rightarrow> world \<Rightarrow> (address \<times> bool) list" where
  "expectedOutcomes e c [] w = []"
| "expectedOutcomes e c (to # rest) w =
     (to, sent e c to w) # expectedOutcomes e c rest (world_of (transferStep e c to w))"

text \<open>
  The shape of a history of the scheduler. One waiting round of the countdown towards
  n, with test read a and second read b: the two reads, the status line with the
  remaining time n - b, the delay of 1000 ms.
\<close>

definition countdownRound :: "int \<Rightarrow> int \<times> int \<Rightarrow> event list" where
  "countdownRound n ab = [EvNow (fst ab), EvNow (snd ab), EvStatus (Some (n - snd ab)), EvWait 1000]"

definition countdown :: "int \<Rightarrow> (int \<times> int) list \<Rightarrow> event list" where
  "countdown n ps = concat (map (countdownRound n) ps)"

text \<open>Every test of these waiting rounds has found the clock before n.\<close>

definition waiting :: "int \<Rightarrow> (int \<times> int) list \<Rightarrow> bool" where
  "waiting n ps = list_all (\<lambda>ab. fst ab < n) ps"

text \<open>The start of a cycle at time t and the events cyc of the cycle.\<close>

definition cycleOpening :: "int \<Rightarrow> event list \<Rightarrow> event list" where
  "cycleOpening t cyc = [EvNow t, EvLog (LogCycleStart t)] @ cyc"

text \<open>
  A full round of mainLoop: the cycle started at startedAt, the waiting rounds of its
  countdown towards startedAt + 24 h, and the test read elapsedAt that ends it.
\<close>

record round =
  startedAt :: int
  cycleEvents :: "event list"
  waits :: "(int \<times> int) list"
  elapsedAt :: int

definition roundEvents :: "round \<Rightarrow> event list" where
  "roundEvents r = cycleOpening (startedAt r) (cycleEvents r)
                   @ countdown (startedAt r + day) (waits r) @ [EvNow (elapsedAt r)]"

text \<open>
  A full round is in order when its cycle has no event of the scheduler, every test of
  its countdown but the last has found the clock before startedAt + 24 h, and the last
  has found it there or later.
\<close>

definition roundOK :: "round \<Rightarrow> bool" where
  "roundOK r = (list_all steady (cycleEvents r) \<and> waiting (startedAt r + day) (waits r)
                \<and> startedAt r + day \<le> elapsedAt r)"

text \<open>
  What follows the full rounds, by the state mainLoop is in: nothing when the rounds
  are used up, with all of them finished; a cycle and the waiting rounds of a countdown
  that has used up its patience; a cycle that an exception has ended.
\<close>

fun remainder :: "loop_result \<Rightarrow> nat \<Rightarrow> nat \<Rightarrow> nat \<Rightarrow> event list \<Rightarrow> bool" where
  "remainder (BetweenCycles _) rounds patience finished tail = (tail = [] \<and> finished = rounds)"
| "remainder (CountingDown _) rounds patience finished tail =
     (finished < rounds
      \<and> (\<exists>t cyc ps. tail = cycleOpening t cyc @ countdown (t + day) ps
            \<and> list_all steady cyc \<and> waiting (t + day) ps \<and> length ps = patience))"
| "remainder (Rejected _ _) rounds patience finished tail =
     (finished < rounds \<and> (\<exists>t cyc. tail = cycleOpening t cyc \<and> list_all steady cyc))"

text \<open>n deployment attempts, each followed by its delay.\<close>

definition alternation :: "nat \<Rightarrow> string \<Rightarrow> event list" where
  "alternation n src = concat (replicate n [EvCompile src, EvWait 3000])"

section \<open>Concrete environments\<close>

text \<open>
  A small run to evaluate the functions on: one wallet with a balance of one ether, a
  pool of three recipients of which the second rejects every transfer, a name generator
  that returns one name, a sort that reverses the pool, and a clock that advances by a
  day with every event.
\<close>

definition art0 :: artifact where
  "art0 = \<lparr>abi = ''[]'', bytecode = ''6080''\<rparr>"

definition wal0 :: wallet where
  "wal0 = \<lparr>wallet_address = ''0xA1''\<rparr>"

definition alpha :: tokenName where
  "alpha = \<lparr>name = ''alpha'', symbol = ''ALP''\<rparr>"

definition beta :: tokenName where
  "beta = \<lparr>name = ''beta'', symbol = ''BET''\<rparr>"

definition con0 :: contract where
  "con0 = \<lparr>target = ''0xC1'', contract_abi = ''[]'', runner = wal0\<rparr>"

definition env0 :: env where
  "env0 = \<lparr>tokenSource = ''contract Token {}'',
            addresses = [''0xB1'', ''0xB2'', ''0xB3''],
            wallets = [wal0],
            solc_compile = (\<lambda>w src. Inr art0),
            contractFactory = (\<lambda>a b. Inr ()),
            getBalance = (\<lambda>w a. Inr (10 ^ 18)),
            factory_deploy = (\<lambda>w wal nm sy supply.
                                Inr \<lparr>txHash = ''0xT1'', pendingAddress = ''0xC1''\<rparr>),
            waitForDeployment = (\<lambda>w pc. Inr ()),
            transfer = (\<lambda>w c to amount. if to = ''0xB2'' then Inl ''revert'' else Inr ''0xT2''),
            tx_wait = (\<lambda>w tx. Inr ()),
            sortRandom = (\<lambda>w xs. rev xs),
            random50 = (\<lambda>w. 6),
            now = (\<lambda>w. int (length w) * day),
            generateUniqueNames = (\<lambda>w n. Inr [alpha])\<rparr>"

text \<open>The same run with a pool of ten recipients.\<close>

definition envTen :: env where
  "envTen = env0\<lparr>addresses := [''0xB0'', ''0xB1'', ''0xB2'', ''0xB3'', ''0xB4'',
                                ''0xB5'', ''0xB6'', ''0xB7'', ''0xB8'', ''0xB9'']\<rparr>"

text \<open>The same run with a wallet that holds 5 wei.\<close>

definition envPoor :: env where
  "envPoor = env0\<lparr>getBalance := (\<lambda>w a. Inr 5)\<rparr>"

text \<open>The same run with a name generator that throws.\<close>

definition envNoNames :: env where
  "envNoNames = env0\<lparr>generateUniqueNames := (\<lambda>w n. Inl ''GenerationExhausted'')\<rparr>"

text \<open>The same run with recipients that all accept.\<close>

definition envAccept :: env where
  "envAccept = env0\<lparr>transfer := (\<lambda>w c to amount. Inr ''0xT2'')\<rparr>"

text \<open>
  The poor wallet with a clock that advances by two hours with every event (and stops
  after a thousand events).
\<close>

definition envTick :: env where
  "envTick = envPoor\<lparr>now := (\<lambda>w. int (min (length w) 1000) * 7200000)\<rparr>"

text \<open>
  Two poor wallets and a name generator that throws at its fourth call: for the second
  wallet of the second cycle.
\<close>

definition wal1 :: wallet where
  "wal1 = \<lparr>wallet_address = ''0xA2''\<rparr>"

definition envLate :: env where
  "envLate = envPoor\<lparr>wallets := [wal0, wal1],
                     generateUniqueNames := (\<lambda>w n.
                        if length (filter isGenerateNames w) = 3
                        then Inl ''GenerationExhausted'' else Inr [alpha])\<rparr>"

text \<open>
  The history of that run up to the fourth call of the generator: a full round with both
  wallets, the first wallet of the second cycle, and the turn to the second wallet.
\<close>

definition historyLate :: world where
  "historyLate =
     [EvStatus None, EvNow day, EvLog (LogCycleStart day),
      EvLog (LogUsingWallet ''0xA1''), EvGenerateNames 5, EvLog (LogGeneratedNames [''alpha'']),
      EvCompile ''contract Token {}'', EvGetBalance ''0xA1'', EvLog (LogBalance ''0xA1'' 5),
      EvLog (LogSlotFailed ''alpha'' BalanceTooLow), EvWait 3000,
      EvLog (LogUsingWallet ''0xA2''), EvGenerateNames 5, EvLog (LogGeneratedNames [''alpha'']),
      EvCompile ''contract Token {}'', EvGetBalance ''0xA2'', EvLog (LogBalance ''0xA2'' 5),
      EvLog (LogSlotFailed ''alpha'' BalanceTooLow), EvWait 3000,
      EvNow (19 * day),
      EvNow (20 * day), EvLog (LogCycleStart (20 * day)),
      EvLog (LogUsingWallet ''0xA1''), EvGenerateNames 5, EvLog (LogGeneratedNames [''alpha'']),
      EvCompile ''contract Token {}'', EvGetBalance ''0xA1'', EvLog (LogBalance ''0xA1'' 5),
      EvLog (LogSlotFailed ''alpha'' BalanceTooLow), EvWait 3000,
      EvLog (LogUsingWallet ''0xA2'')]"

text \<open>The same run with a constructor of ContractFactory that rejects the artifact.\<close>

definition envBadCode :: env where
  "envBadCode = env0\<lparr>contractFactory := (\<lambda>a b. Inl ''invalid BytesLike value'')\<rparr>"

text \<open>The same run with an empty recipient pool and a clock that stands still.\<close>

definition envStill :: env where
  "envStill = env0\<lparr>addresses := [], now := (\<lambda>w. 0)\<rparr>"

section \<open>Facts about the literals\<close>

lemma parseUnits_1000: "parseUnits ''1000'' 18 = Some (10 ^ 21)"
  by (simp add: parseUnits_def isDigit_def decimalVal_def digitVal_def)

lemma parseEther_min: "parseEther ''0.000001'' = Some (10 ^ 12)"
  by (simp add: parseEther_def parseUnits_def isDigit_def decimalVal_def digitVal_def)

section \<open>What each function adds to the history\<close>

lemmas deploy_unfold = deployToken_def compileContract_def log_def parseUnits_1000 parseEther_min Let_def

lemma emitted_append [simp]: "emitted w (w @ evs) = evs"
  by (simp add: emitted_def)

lemma map_filter_append [simp]:
  "List.map_filter f (xs @ ys) = List.map_filter f xs @ List.map_filter f ys"
  by (simp add: List.map_filter_def)

lemma deployToken_extends:
  "\<exists>evs. world_of (deployToken e wal nm sy w) = w @ EvCompile (tokenSource e) # evs
     \<and> list_all calm evs \<and> filter isSortRandom evs = []
     \<and> List.map_filter slotOutcome evs = [] \<and> List.map_filter transferOn evs = []
     \<and> List.map_filter transferTo evs = []"
  by (simp add: deploy_unfold calm_def split: sum.splits)

lemma transferStep_extends:
  "\<exists>evs. transferStep e c to w = Return () (w @ evs)
     \<and> list_all calm evs \<and> filter isSortRandom evs = [] \<and> List.map_filter slotOutcome evs = []
     \<and> List.map_filter transferTo evs = [to]
     \<and> List.map_filter sendOutcome evs = [(to, sent e c to w)]
     \<and> List.map_filter transferOn evs = [target c]"
  by (simp add: transferStep_def transferBody_def sent_def log_def calm_def Let_def
      split: sum.splits)


lemma transferLoop_extends:
  "\<exists>evs. transferLoop e c ts w = Return () (w @ evs)
     \<and> list_all calm evs \<and> filter isSortRandom evs = [] \<and> List.map_filter slotOutcome evs = []
     \<and> List.map_filter transferTo evs = ts
     \<and> List.map_filter sendOutcome evs = expectedOutcomes e c ts w
     \<and> List.map_filter transferOn evs = map (\<lambda>_. target c) ts"
proof (induction ts arbitrary: w)
  case Nil
  show ?case by (intro exI [of _ "[]"]) simp
next
  case (Cons to ts)
  from transferStep_extends [of e c to w]
  obtain evs1 where s: "transferStep e c to w = Return () (w @ evs1)"
    and p1: "list_all calm evs1" "filter isSortRandom evs1 = []" "List.map_filter slotOutcome evs1 = []"
      "List.map_filter transferTo evs1 = [to]"
      "List.map_filter sendOutcome evs1 = [(to, sent e c to w)]"
      "List.map_filter transferOn evs1 = [target c]"
    by (elim exE conjE)
  from Cons.IH [of "w @ evs1"]
  obtain evs2 where l: "transferLoop e c ts (w @ evs1) = Return () ((w @ evs1) @ evs2)"
    and p2: "list_all calm evs2" "filter isSortRandom evs2 = []" "List.map_filter slotOutcome evs2 = []"
      "List.map_filter transferTo evs2 = ts"
      "List.map_filter sendOutcome evs2 = expectedOutcomes e c ts (w @ evs1)"
      "List.map_filter transferOn evs2 = map (\<lambda>_. target c) ts"
    by (elim exE conjE)
  have "transferLoop e c (to # ts) w = Return () (w @ (evs1 @ evs2))"
    using s l by simp
  moreover have "list_all calm (evs1 @ evs2)" using p1 p2 by simp
  moreover have "filter isSortRandom (evs1 @ evs2) = []" using p1 p2 by simp
  moreover have "List.map_filter slotOutcome (evs1 @ evs2) = []" using p1 p2 by simp
  moreover have "List.map_filter transferTo (evs1 @ evs2) = to # ts" using p1(4) p2(4) by simp
  moreover have "List.map_filter sendOutcome (evs1 @ evs2) = expectedOutcomes e c (to # ts) w"
    using p1(5) p2(5) s by simp
  moreover have "List.map_filter transferOn (evs1 @ evs2) = map (\<lambda>_. target c) (to # ts)" using p1(6) p2(6) by simp
  ultimately show ?case by (intro exI [of _ "evs1 @ evs2"] conjI)
qed

lemma sendToRandomAddresses_extends:
  "\<exists>evs. sendToRandomAddresses e c w = Return () (w @ EvSortRandom # evs)
     \<and> list_all calm evs \<and> filter isSortRandom evs = [] \<and> List.map_filter slotOutcome evs = []
     \<and> List.map_filter transferTo evs = take 7 (sortRandom e w (addresses e))
     \<and> List.map_filter sendOutcome evs
         = expectedOutcomes e c (take 7 (sortRandom e w (addresses e))) (w @ [EvSortRandom])
     \<and> List.map_filter transferOn evs = map (\<lambda>_. target c) (take 7 (sortRandom e w (addresses e)))"
  using transferLoop_extends [of e c "take 7 (sortRandom e w (addresses e))" "w @ [EvSortRandom]"]
  by (simp add: sendToRandomAddresses_def)

lemma expectedOutcomes_recipients: "map fst (expectedOutcomes e c ts w) = ts"
  by (induction ts arbitrary: w) simp_all

lemma calm_steady: "list_all calm evs \<Longrightarrow> list_all steady evs"
  by (induction evs) (simp_all add: calm_def steady_def)

lemma calm_pacing: "list_all calm evs \<Longrightarrow> filter isPacing evs = []"
  by (induction evs) (simp_all add: calm_def)

lemma calm_names: "list_all calm evs \<Longrightarrow> filter isGenerateNames evs = []"
  by (induction evs) (simp_all add: calm_def)

lemma alternation_add: "alternation n src @ alternation m src = alternation (n + m) src"
  by (simp add: alternation_def replicate_add)

lemma slotStep_extends:
  "\<exists>evs. slotStep e wal i n w = Return () (w @ EvCompile (tokenSource e) # evs @ [EvWait 3000])
     \<and> list_all calm evs \<and> map fst (List.map_filter slotOutcome evs) = [name n]
     \<and> length (filter isSortRandom evs)
         = (if returns (deployToken e wal (name n) (symbol n) w) then 1 else 0)"
proof -
  from deployToken_extends [of e wal "name n" "symbol n" w]
  obtain evs1 where d: "world_of (deployToken e wal (name n) (symbol n) w)
        = w @ EvCompile (tokenSource e) # evs1"
    and p1: "list_all calm evs1" "filter isSortRandom evs1 = []"
      "List.map_filter slotOutcome evs1 = []"
    by (elim exE conjE)
  show ?thesis
  proof (cases "deployToken e wal (name n) (symbol n) w")
    case (Throw err w1)
    with d have w1: "w1 = w @ EvCompile (tokenSource e) # evs1" by simp
    have "slotStep e wal i n w = Return () (w @ EvCompile (tokenSource e)
            # (evs1 @ [EvLog (LogSlotFailed (name n) err)]) @ [EvWait 3000])"
      using Throw w1 by (simp add: slotStep_def slotBody_def log_def)
    moreover have "list_all calm (evs1 @ [EvLog (LogSlotFailed (name n) err)])"
      using p1 by (simp add: calm_def)
    moreover have "map fst (List.map_filter slotOutcome (evs1 @ [EvLog (LogSlotFailed (name n) err)]))
        = [name n]"
      using p1 by simp
    moreover have "length (filter isSortRandom (evs1 @ [EvLog (LogSlotFailed (name n) err)]))
        = (if returns (deployToken e wal (name n) (symbol n) w) then 1 else 0)"
      using p1 Throw by simp
    ultimately show ?thesis
      by (intro exI [of _ "evs1 @ [EvLog (LogSlotFailed (name n) err)]"] conjI)
  next
    case (Return c w1)
    with d have w1: "w1 = w @ EvCompile (tokenSource e) # evs1" by simp
    let ?l = "EvLog (LogSlotDeployed (i + 1) (name n) (symbol n) (target c))"
    from sendToRandomAddresses_extends [of e c "w1 @ [?l]"]
    obtain evs2 where s: "sendToRandomAddresses e c (w1 @ [?l])
          = Return () ((w1 @ [?l]) @ EvSortRandom # evs2)"
      and p2: "list_all calm evs2" "filter isSortRandom evs2 = []"
        "List.map_filter slotOutcome evs2 = []"
      by (elim exE conjE)
    let ?evs = "evs1 @ ?l # EvSortRandom # evs2"
    have "slotStep e wal i n w = Return () (w @ EvCompile (tokenSource e) # ?evs @ [EvWait 3000])"
      using Return w1 s by (simp add: slotStep_def slotBody_def log_def)
    moreover have "list_all calm ?evs"
      using p1 p2 by (simp add: calm_def)
    moreover have "map fst (List.map_filter slotOutcome ?evs) = [name n]"
      using p1 p2 by simp
    moreover have "length (filter isSortRandom ?evs)
        = (if returns (deployToken e wal (name n) (symbol n) w) then 1 else 0)"
      using p1 p2 Return by simp
    ultimately show ?thesis
      by (intro exI [of _ ?evs] conjI)
  qed
qed

lemma slotLoop_extends:
  "\<exists>evs. slotLoop e wal i names w = Return () (w @ evs)
     \<and> list_all steady evs
     \<and> filter isPacing evs = alternation (length names) (tokenSource e)
     \<and> filter isGenerateNames evs = []
     \<and> map fst (List.map_filter slotOutcome evs) = map name names"
proof (induction names arbitrary: w i)
  case Nil
  show ?case by (intro exI [of _ "[]"]) (simp add: alternation_def)
next
  case (Cons n names)
  from slotStep_extends [of e wal i n w]
  obtain evs1 where s: "slotStep e wal i n w
        = Return () (w @ EvCompile (tokenSource e) # evs1 @ [EvWait 3000])"
    and p1: "list_all calm evs1" "map fst (List.map_filter slotOutcome evs1) = [name n]"
    by (elim exE conjE)
  let ?b = "EvCompile (tokenSource e) # evs1 @ [EvWait 3000]"
  from Cons.IH [of "i + 1" "w @ ?b"]
  obtain evs2 where l: "slotLoop e wal (i + 1) names (w @ ?b) = Return () ((w @ ?b) @ evs2)"
    and p2: "list_all steady evs2"
      "filter isPacing evs2 = alternation (length names) (tokenSource e)"
      "filter isGenerateNames evs2 = []"
      "map fst (List.map_filter slotOutcome evs2) = map name names"
    by (elim exE conjE)
  have "slotLoop e wal i (n # names) w = Return () (w @ (?b @ evs2))"
    using s l by simp
  moreover have "list_all steady (?b @ evs2)"
    using calm_steady [OF p1(1)] p2(1) by (simp add: steady_def)
  moreover have "filter isPacing (?b @ evs2) = alternation (length (n # names)) (tokenSource e)"
    using calm_pacing [OF p1(1)] p2(2) by (simp add: alternation_def)
  moreover have "filter isGenerateNames (?b @ evs2) = []"
    using calm_names [OF p1(1)] p2(3) by simp
  moreover have "map fst (List.map_filter slotOutcome (?b @ evs2)) = map name (n # names)"
    using p1(2) p2(4) by simp
  ultimately show ?case
    by (intro exI [of _ "?b @ evs2"] conjI)
qed

lemma walletStep_throw:
  "generateUniqueNames e (w @ [EvLog (LogUsingWallet (wallet_address wal))]) 5 = Inl m \<Longrightarrow>
   walletStep e wal w
     = Throw (Thrown m) (w @ [EvLog (LogUsingWallet (wallet_address wal)), EvGenerateNames 5])"
  by (simp add: walletStep_def log_def)

lemma walletStep_return:
  "generateUniqueNames e (w @ [EvLog (LogUsingWallet (wallet_address wal))]) 5 = Inr names \<Longrightarrow>
   returns (walletStep e wal w)"
  using slotLoop_extends [of e wal 0 names
      "w @ [EvLog (LogUsingWallet (wallet_address wal)), EvGenerateNames 5,
            EvLog (LogGeneratedNames (map name names))]"]
  by (auto simp add: walletStep_def log_def)

lemma walletStep_extends:
  "\<exists>evs. world_of (walletStep e wal w) = w @ evs \<and> list_all steady evs
     \<and> (\<exists>n. filter isPacing evs = alternation n (tokenSource e))
     \<and> length (filter isGenerateNames evs) = 1"
proof (cases "generateUniqueNames e (w @ [EvLog (LogUsingWallet (wallet_address wal))]) 5")
  case (Inl m)
  let ?evs = "[EvLog (LogUsingWallet (wallet_address wal)), EvGenerateNames 5]"
  have "world_of (walletStep e wal w) = w @ ?evs"
    using walletStep_throw [OF Inl] by simp
  moreover have "list_all steady ?evs" by (simp add: steady_def)
  moreover have "filter isPacing ?evs = alternation 0 (tokenSource e)"
    by (simp add: alternation_def)
  moreover have "length (filter isGenerateNames ?evs) = 1" by simp
  ultimately show ?thesis
    by (intro exI [of _ ?evs] conjI exI [of _ 0])
next
  case (Inr names)
  let ?p = "[EvLog (LogUsingWallet (wallet_address wal)), EvGenerateNames 5,
             EvLog (LogGeneratedNames (map name names))]"
  from slotLoop_extends [of e wal 0 names "w @ ?p"]
  obtain evs where l: "slotLoop e wal 0 names (w @ ?p) = Return () ((w @ ?p) @ evs)"
    and p: "list_all steady evs"
      "filter isPacing evs = alternation (length names) (tokenSource e)"
      "filter isGenerateNames evs = []"
    by (elim exE conjE)
  have "world_of (walletStep e wal w) = w @ (?p @ evs)"
    using Inr l by (simp add: walletStep_def log_def)
  moreover have "list_all steady (?p @ evs)" using p(1) by (simp add: steady_def)
  moreover have "filter isPacing (?p @ evs) = alternation (length names) (tokenSource e)"
    using p(2) by simp
  moreover have "length (filter isGenerateNames (?p @ evs)) = 1" using p(3) by simp
  ultimately show ?thesis
    by (intro exI [of _ "?p @ evs"] conjI exI [of _ "length names"])
qed

lemma walletLoop_extends:
  "\<exists>evs. world_of (walletLoop e ws w) = w @ evs \<and> list_all steady evs
     \<and> (\<exists>n. filter isPacing evs = alternation n (tokenSource e))
     \<and> (returns (walletLoop e ws w) \<longrightarrow> length (filter isGenerateNames evs) = length ws)"
proof (induction ws arbitrary: w)
  case Nil
  show ?case by (intro exI [of _ "[]"] conjI exI [of _ 0]) (simp_all add: alternation_def)
next
  case (Cons wal ws)
  from walletStep_extends [of e wal w]
  obtain evs1 n1 where s: "world_of (walletStep e wal w) = w @ evs1"
    and p1: "list_all steady evs1" "filter isPacing evs1 = alternation n1 (tokenSource e)"
      "length (filter isGenerateNames evs1) = 1"
    by (elim exE conjE)
  show ?case
  proof (cases "walletStep e wal w")
    case (Throw err w1)
    have "world_of (walletLoop e (wal # ws) w) = w @ evs1"
      using s Throw by simp
    moreover have "returns (walletLoop e (wal # ws) w)
        \<longrightarrow> length (filter isGenerateNames evs1) = length (wal # ws)"
      using Throw by simp
    ultimately show ?thesis using p1(1) p1(2)
      by (intro exI [of _ evs1] conjI exI [of _ n1])
  next
    case (Return u w1)
    with s have w1: "w1 = w @ evs1" by simp
    from Cons.IH [of "w @ evs1"]
    obtain evs2 n2 where l: "world_of (walletLoop e ws (w @ evs1)) = (w @ evs1) @ evs2"
      and p2: "list_all steady evs2" "filter isPacing evs2 = alternation n2 (tokenSource e)"
        "returns (walletLoop e ws (w @ evs1)) \<longrightarrow> length (filter isGenerateNames evs2) = length ws"
      by (elim exE conjE)
    have "world_of (walletLoop e (wal # ws) w) = w @ (evs1 @ evs2)"
      using Return w1 l by simp
    moreover have "list_all steady (evs1 @ evs2)" using p1(1) p2(1) by simp
    moreover have "filter isPacing (evs1 @ evs2) = alternation (n1 + n2) (tokenSource e)"
      using p1(2) p2(2) by (simp add: alternation_add)
    moreover have "returns (walletLoop e (wal # ws) w)
        \<longrightarrow> length (filter isGenerateNames (evs1 @ evs2)) = length (wal # ws)"
      using Return w1 p1(3) p2(3) by simp
    ultimately show ?thesis
      by (intro exI [of _ "evs1 @ evs2"] conjI exI [of _ "n1 + n2"])
  qed
qed

lemma walletLoop_returns:
  "(\<And>w'. \<exists>names. generateUniqueNames e w' 5 = Inr names) \<Longrightarrow> returns (walletLoop e ws w)"
proof (induction ws arbitrary: w)
  case Nil
  show ?case by simp
next
  case (Cons wal ws)
  obtain names where "generateUniqueNames e (w @ [EvLog (LogUsingWallet (wallet_address wal))]) 5
      = Inr names"
    using Cons.prems by blast
  then have "returns (walletStep e wal w)" by (rule walletStep_return)
  then obtain u w1 where "walletStep e wal w = Return u w1"
    by (cases "walletStep e wal w") simp_all
  then show ?case using Cons.IH [OF Cons.prems, of w1] by simp
qed

lemma walletStep_not_returns:
  "\<not> returns (walletStep e wal w) \<Longrightarrow>
   \<exists>m. generateUniqueNames e (w @ [EvLog (LogUsingWallet (wallet_address wal))]) 5 = Inl m
     \<and> walletStep e wal w = Throw (Thrown m)
          (w @ [EvLog (LogUsingWallet (wallet_address wal)), EvGenerateNames 5])"
  using walletStep_throw [of e w wal] walletStep_return [of e w wal]
  by (cases "generateUniqueNames e (w @ [EvLog (LogUsingWallet (wallet_address wal))]) 5") auto

lemma walletLoop_not_returns:
  "\<not> returns (walletLoop e ws w) \<Longrightarrow>
   \<exists>w0 m. generateUniqueNames e w0 5 = Inl m
     \<and> walletLoop e ws w = Throw (Thrown m) (w0 @ [EvGenerateNames 5])"
proof (induction ws arbitrary: w)
  case Nil
  then show ?case by simp
next
  case (Cons wal ws)
  show ?case
  proof (cases "walletStep e wal w")
    case (Throw err w1)
    then have "\<not> returns (walletStep e wal w)" by simp
    from walletStep_not_returns [OF this] Throw show ?thesis
      by (intro exI [of _ "w @ [EvLog (LogUsingWallet (wallet_address wal))]"]) auto
  next
    case (Return u w1)
    with Cons.prems have "\<not> returns (walletLoop e ws w1)" by simp
    from Cons.IH [OF this] Return show ?thesis by simp
  qed
qed


lemma isCompile_isPacing: "filter isCompile (filter isPacing evs) = filter isCompile evs"
proof -
  have "isCompile ev \<Longrightarrow> isPacing ev" for ev by (cases ev) simp_all
  then show ?thesis by (induction evs) auto
qed

lemma compile_alternation: "filter isCompile (alternation n src) = replicate n (EvCompile src)"
  by (induction n) (simp_all add: alternation_def)

lemma slotLoop_compiles:
  "filter isCompile (emitted w (world_of (slotLoop e wal i names w)))
     = replicate (length names) (EvCompile (tokenSource e))"
proof -
  from slotLoop_extends [of e wal i names w]
  obtain evs where l: "slotLoop e wal i names w = Return () (w @ evs)"
    and p: "filter isPacing evs = alternation (length names) (tokenSource e)"
    by (elim exE conjE)
  have "filter isCompile evs = filter isCompile (filter isPacing evs)"
    by (simp only: isCompile_isPacing)
  with p l show ?thesis by (simp add: compile_alternation)
qed

section \<open>Compilation\<close>

text \<open>
  C1, as the code has it. compileContract keeps no artifact: every call invokes
  solc.compile once, and deployToken calls compileContract first thing. So every call of
  compileContract adds exactly one compilation to the history and returns the artifact
  the compiler answers with in that call, every call of deployToken contains exactly
  one compilation (whether it then succeeds or fails), and a batch of n deployment
  slots compiles n times.
\<close>

theorem compile_every_call:
  "world_of (compileContract e w) = w @ [EvCompile (tokenSource e)]
   \<and> (\<forall>a. solc_compile e w (tokenSource e) = Inr a
         \<longrightarrow> compileContract e w = Return a (w @ [EvCompile (tokenSource e)]))
   \<and> filter isCompile (emitted w (world_of (deployToken e wal nm sy w)))
       = [EvCompile (tokenSource e)]
   \<and> filter isCompile (emitted w (world_of (slotLoop e wal i names w)))
       = replicate (length names) (EvCompile (tokenSource e))"
proof (intro conjI)
  show "world_of (compileContract e w) = w @ [EvCompile (tokenSource e)]"
    by (simp add: compileContract_def split: sum.splits)
  show "\<forall>a. solc_compile e w (tokenSource e) = Inr a
         \<longrightarrow> compileContract e w = Return a (w @ [EvCompile (tokenSource e)])"
    by (simp add: compileContract_def)
  show "filter isCompile (emitted w (world_of (deployToken e wal nm sy w)))
       = [EvCompile (tokenSource e)]"
    by (simp add: deploy_unfold split: sum.splits)
  show "filter isCompile (emitted w (world_of (slotLoop e wal i names w)))
       = replicate (length names) (EvCompile (tokenSource e))"
    by (rule slotLoop_compiles)
qed

theorem compile_every_call_witness:
  "solc_compile env0 [EvCompile (tokenSource env0)] (tokenSource env0) = Inr art0
   \<and> compileContract env0 [EvCompile (tokenSource env0)]
       = Return art0 ([EvCompile (tokenSource env0)] @ [EvCompile (tokenSource env0)])
   \<and> filter isCompile (emitted [EvCompile (tokenSource env0)]
        (world_of (slotLoop env0 wal0 0 [alpha, beta] [EvCompile (tokenSource env0)])))
       = [EvCompile (tokenSource env0), EvCompile (tokenSource env0)]"
proof -
  have h: "solc_compile env0 [EvCompile (tokenSource env0)] (tokenSource env0) = Inr art0"
    by (simp add: env0_def)
  note t = compile_every_call [of env0 "[EvCompile (tokenSource env0)]" wal0 "''alpha''"
      "''ALP''" 0 "[alpha, beta]"]
  from t have 2: "\<forall>a. solc_compile env0 [EvCompile (tokenSource env0)] (tokenSource env0) = Inr a
         \<longrightarrow> compileContract env0 [EvCompile (tokenSource env0)]
             = Return a ([EvCompile (tokenSource env0)] @ [EvCompile (tokenSource env0)])"
    by (elim conjE)
  from t have 4: "filter isCompile (emitted [EvCompile (tokenSource env0)]
        (world_of (slotLoop env0 wal0 0 [alpha, beta] [EvCompile (tokenSource env0)])))
       = replicate (length [alpha, beta]) (EvCompile (tokenSource env0))"
    by (elim conjE)
  have r: "replicate (length [alpha, beta]) (EvCompile (tokenSource env0))
      = [EvCompile (tokenSource env0), EvCompile (tokenSource env0)]"
    by (simp add: numeral_2_eq_2)
  from h 2 [rule_format, OF h] 4 show ?thesis unfolding r by (intro conjI)
qed

text \<open>
  The memoization the specification describes does not hold: two calls of
  compileContract on the same source are two calls of the compiler, and a batch of two
  deployments (both successful here) compiles twice.
\<close>

theorem compile_memoized_counterexample:
  "world_of (compileContract env0 (world_of (compileContract env0 [])))
     = [EvCompile (tokenSource env0), EvCompile (tokenSource env0)]
   \<and> \<not> length (filter isCompile (world_of (slotLoop envStill wal0 0 [alpha, beta] []))) \<le> 1"
  by (simp add: env0_def envStill_def slotStep_def slotBody_def
      sendToRandomAddresses_def deploy_unfold alpha_def beta_def wal0_def)

section \<open>The balance check of deployToken\<close>

text \<open>
  Before the balance: an artifact that the constructor of ContractFactory rejects ends
  deployToken right after the compilation, with no call to the chain.
\<close>

lemma deployToken_rejected_artifact:
  assumes "solc_compile e w (tokenSource e) = Inr art"
    and "contractFactory e (abi art) (bytecode art) = Inl m"
  shows "deployToken e wal nm sy w = Throw (Thrown m) (w @ [EvCompile (tokenSource e)])"
  using assms by (simp add: deploy_unfold)

lemma deployToken_envBadCode:
  "deployToken envBadCode wal0 ''alpha'' ''ALP'' []
     = Throw (Thrown ''invalid BytesLike value'') [EvCompile ''contract Token {}'']"
  by (simp add: deploy_unfold envBadCode_def env0_def)

text \<open>
  C3. The balance is queried once the compiler has answered and the constructor of
  ContractFactory has accepted the artifact. When the query then returns a balance below
  10^12 wei, deployToken throws the balance error, and what it has added to the history
  contains no submission (neither a contract creation nor a transfer); the balance
  query is the only call that reached the chain.
\<close>

theorem low_balance_no_submission:
  assumes "solc_compile e w (tokenSource e) = Inr art"
    and "contractFactory e (abi art) (bytecode art) = Inr u"
    and "getBalance e (w @ [EvCompile (tokenSource e)]) (wallet_address wal) = Inr b"
    and "b < 10 ^ 12"
  shows "\<exists>w'. deployToken e wal nm sy w = Throw BalanceTooLow w'
           \<and> filter isSubmission (emitted w w') = []
           \<and> filter isChainCall (emitted w w') = [EvGetBalance (wallet_address wal)]"
  using assms by (simp add: deploy_unfold)

theorem low_balance_no_submission_witness:
  "solc_compile envPoor [] (tokenSource envPoor) = Inr art0
   \<and> contractFactory envPoor (abi art0) (bytecode art0) = Inr ()
   \<and> getBalance envPoor ([] @ [EvCompile (tokenSource envPoor)]) (wallet_address wal0) = Inr 5
   \<and> (5 :: int) < 10 ^ 12
   \<and> (\<exists>w'. deployToken envPoor wal0 ''alpha'' ''ALP'' [] = Throw BalanceTooLow w'
           \<and> filter isSubmission (emitted [] w') = []
           \<and> filter isChainCall (emitted [] w') = [EvGetBalance (wallet_address wal0)])"
proof -
  have h1: "solc_compile envPoor [] (tokenSource envPoor) = Inr art0"
    by (simp add: envPoor_def env0_def)
  have h2: "contractFactory envPoor (abi art0) (bytecode art0) = Inr ()"
    by (simp add: envPoor_def env0_def)
  have h3: "getBalance envPoor ([] @ [EvCompile (tokenSource envPoor)]) (wallet_address wal0) = Inr 5"
    by (simp add: envPoor_def env0_def)
  have h4: "(5 :: int) < 10 ^ 12" by simp
  from low_balance_no_submission [OF h1 h2 h3 h4, of "''alpha''" "''ALP''"] h1 h2 h3 h4
  show ?thesis by (intro conjI)
qed

text \<open>
  C10. The threshold parseEther("0.000001") is exactly 10^12 wei, and when the compiler
  has answered, the constructor of ContractFactory has accepted the artifact and the
  balance query returns b, deployToken submits the contract creation (once, with the
  supply of 1000 * 10^18) if and only if 10^12 <= b.
\<close>

theorem minimum_balance_threshold:
  assumes "solc_compile e w (tokenSource e) = Inr art"
    and "contractFactory e (abi art) (bytecode art) = Inr u"
    and "getBalance e (w @ [EvCompile (tokenSource e)]) (wallet_address wal) = Inr b"
  shows "parseEther ''0.000001'' = Some (10 ^ 12)
     \<and> filter isDeploy (emitted w (world_of (deployToken e wal nm sy w)))
         = (if 10 ^ 12 \<le> b then [EvDeploy (wallet_address wal) nm sy (10 ^ 21)] else [])
     \<and> ((\<exists>ev \<in> set (emitted w (world_of (deployToken e wal nm sy w))). isDeploy ev)
          \<longleftrightarrow> 10 ^ 12 \<le> b)"
  using assms by (simp add: deploy_unfold split: sum.splits)

theorem minimum_balance_threshold_witness:
  "solc_compile env0 [] (tokenSource env0) = Inr art0
   \<and> contractFactory env0 (abi art0) (bytecode art0) = Inr ()
   \<and> getBalance env0 ([] @ [EvCompile (tokenSource env0)]) (wallet_address wal0) = Inr (10 ^ 18)
   \<and> filter isDeploy (emitted [] (world_of (deployToken env0 wal0 ''alpha'' ''ALP'' [])))
         = [EvDeploy (wallet_address wal0) ''alpha'' ''ALP'' (10 ^ 21)]"
proof -
  have h1: "solc_compile env0 [] (tokenSource env0) = Inr art0"
    by (simp add: env0_def)
  have h2: "contractFactory env0 (abi art0) (bytecode art0) = Inr ()"
    by (simp add: env0_def)
  have h3: "getBalance env0 ([] @ [EvCompile (tokenSource env0)]) (wallet_address wal0) = Inr (10 ^ 18)"
    by (simp add: env0_def)
  from minimum_balance_threshold [OF h1 h2 h3, of "''alpha''" "''ALP''"] h1 h2 h3
  show ?thesis by simp
qed

section \<open>Distribution\<close>

text \<open>
  C6. The sample size is the literal 7 of slice(0, 7). When the addresses of the pool
  are pairwise distinct and the sort returns a permutation of the pool,
  sendToRandomAddresses returns after exactly min(7, size of the pool) transfer calls,
  to pairwise distinct recipients that all belong to the pool; with a pool of at least
  seven addresses that is exactly seven transfer calls. This holds whatever the
  transfers do, so a transfer that fails is counted as attempted.
\<close>

theorem distribute_sample:
  assumes "distinct (addresses e)"
    and "mset (sortRandom e w (addresses e)) = mset (addresses e)"
  shows "\<exists>w'. sendToRandomAddresses e c w = Return () w'
     \<and> length (List.map_filter transferTo (emitted w w')) = min 7 (length (addresses e))
     \<and> distinct (List.map_filter transferTo (emitted w w'))
     \<and> set (List.map_filter transferTo (emitted w w')) \<subseteq> set (addresses e)
     \<and> (7 \<le> length (addresses e) \<longrightarrow> length (List.map_filter transferTo (emitted w w')) = 7)"
proof -
  let ?s = "sortRandom e w (addresses e)"
  from sendToRandomAddresses_extends [of e c w]
  obtain evs where r: "sendToRandomAddresses e c w = Return () (w @ EvSortRandom # evs)"
    and t: "List.map_filter transferTo evs = take 7 ?s"
    by (elim exE conjE)
  have len: "length ?s = length (addresses e)"
    using assms(2) by (rule mset_eq_length)
  have dist: "distinct ?s"
    using mset_eq_imp_distinct_iff [OF assms(2)] assms(1) by simp
  have sub: "set (take 7 ?s) \<subseteq> set (addresses e)"
    using set_take_subset [of 7 ?s] mset_eq_setD [OF assms(2)] by simp
  show ?thesis
    using r len dist sub
    by (intro exI [of _ "w @ EvSortRandom # evs"]) (simp add: t)
qed

theorem distribute_sample_witness:
  "distinct (addresses envTen)
   \<and> mset (sortRandom envTen [] (addresses envTen)) = mset (addresses envTen)
   \<and> (\<exists>w'. sendToRandomAddresses envTen con0 [] = Return () w'
        \<and> length (List.map_filter transferTo (emitted [] w')) = 7
        \<and> distinct (List.map_filter transferTo (emitted [] w'))
        \<and> set (List.map_filter transferTo (emitted [] w')) \<subseteq> set (addresses envTen))"
proof -
  have h1: "distinct (addresses envTen)" by (simp add: envTen_def env0_def)
  have h2: "mset (sortRandom envTen [] (addresses envTen)) = mset (addresses envTen)"
    by (simp add: envTen_def env0_def)
  have h3: "7 \<le> length (addresses envTen)" by (simp add: envTen_def env0_def)
  from distribute_sample [OF h1 h2, of con0]
  obtain w' where "sendToRandomAddresses envTen con0 [] = Return () w'"
    "distinct (List.map_filter transferTo (emitted [] w'))"
    "set (List.map_filter transferTo (emitted [] w')) \<subseteq> set (addresses envTen)"
    "7 \<le> length (addresses envTen) \<longrightarrow> length (List.map_filter transferTo (emitted [] w')) = 7"
    by (elim exE conjE)
  with h1 h2 h3 show ?thesis
    by (intro conjI exI [of _ w']) simp_all
qed

text \<open>
  C7, as the code has it. The outcomes are log lines: sendToRandomAddresses returns no
  value. For every sequence of targets, the loop of sendToRandomAddresses returns, calls
  transfer exactly once per target, in order, and records exactly one outcome per
  target, in order: the recipient with the log line of the try block when transfer and
  tx.wait both returned for that recipient, and with the one of the catch block when one
  of them threw, whatever happened to the recipients before. The function itself does so
  for the first seven addresses of the shuffled pool. When the try block throws for a
  recipient, the iteration ends with the error logged for that recipient and returns,
  so the loop goes on with the next recipient.
\<close>

theorem distribute_isolates_failures:
  "(\<exists>w'. transferLoop e c targets w = Return () w'
      \<and> List.map_filter transferTo (emitted w w') = targets
      \<and> List.map_filter sendOutcome (emitted w w') = expectedOutcomes e c targets w)
   \<and> (\<exists>w'. sendToRandomAddresses e c w = Return () w'
      \<and> List.map_filter transferTo (emitted w w') = take 7 (sortRandom e w (addresses e))
      \<and> List.map_filter sendOutcome (emitted w w')
          = expectedOutcomes e c (take 7 (sortRandom e w (addresses e))) (w @ [EvSortRandom]))
   \<and> map fst (expectedOutcomes e c targets w) = targets
   \<and> (\<forall>err w1. transferBody e c to (int (random50 e w mod 50 + 1) * 10 ^ 18) (w @ [EvRandom])
                  = Throw err w1
        \<longrightarrow> transferStep e c to w = Return () (w1 @ [EvLog (LogSendError to err)]))"
proof (intro conjI)
  from transferLoop_extends [of e c targets w]
  obtain evs where r: "transferLoop e c targets w = Return () (w @ evs)"
    and t: "List.map_filter transferTo evs = targets"
      "List.map_filter sendOutcome evs = expectedOutcomes e c targets w"
    by (elim exE conjE)
  then show "\<exists>w'. transferLoop e c targets w = Return () w'
      \<and> List.map_filter transferTo (emitted w w') = targets
      \<and> List.map_filter sendOutcome (emitted w w') = expectedOutcomes e c targets w"
    by (intro exI [of _ "w @ evs"]) simp
next
  from sendToRandomAddresses_extends [of e c w]
  obtain evs where r: "sendToRandomAddresses e c w = Return () (w @ EvSortRandom # evs)"
    and t: "List.map_filter transferTo evs = take 7 (sortRandom e w (addresses e))"
      "List.map_filter sendOutcome evs
         = expectedOutcomes e c (take 7 (sortRandom e w (addresses e))) (w @ [EvSortRandom])"
    by (elim exE conjE)
  then show "\<exists>w'. sendToRandomAddresses e c w = Return () w'
      \<and> List.map_filter transferTo (emitted w w') = take 7 (sortRandom e w (addresses e))
      \<and> List.map_filter sendOutcome (emitted w w')
          = expectedOutcomes e c (take 7 (sortRandom e w (addresses e))) (w @ [EvSortRandom])"
    by (intro exI [of _ "w @ EvSortRandom # evs"]) simp
next
  show "map fst (expectedOutcomes e c targets w) = targets"
    by (rule expectedOutcomes_recipients)
next
  show "\<forall>err w1. transferBody e c to (int (random50 e w mod 50 + 1) * 10 ^ 18) (w @ [EvRandom])
                  = Throw err w1
        \<longrightarrow> transferStep e c to w = Return () (w1 @ [EvLog (LogSendError to err)])"
    by (simp add: transferStep_def log_def Let_def)
qed

theorem distribute_isolates_failures_witness:
  "transferBody env0 con0 ''0xB2'' (int (random50 env0 [] mod 50 + 1) * 10 ^ 18) ([] @ [EvRandom])
     = Throw (Thrown ''revert'') [EvRandom, EvTransfer ''0xC1'' ''0xB2'' (7 * 10 ^ 18)]
   \<and> transferStep env0 con0 ''0xB2'' []
       = Return () ([EvRandom, EvTransfer ''0xC1'' ''0xB2'' (7 * 10 ^ 18)]
                    @ [EvLog (LogSendError ''0xB2'' (Thrown ''revert''))])
   \<and> (\<exists>w'. sendToRandomAddresses env0 con0 [] = Return () w'
        \<and> List.map_filter transferTo (emitted [] w') = [''0xB3'', ''0xB2'', ''0xB1'']
        \<and> List.map_filter sendOutcome (emitted [] w')
            = [(''0xB3'', True), (''0xB2'', False), (''0xB1'', True)])"
proof -
  have h: "transferBody env0 con0 ''0xB2'' (int (random50 env0 [] mod 50 + 1) * 10 ^ 18)
      ([] @ [EvRandom])
     = Throw (Thrown ''revert'') [EvRandom, EvTransfer ''0xC1'' ''0xB2'' (7 * 10 ^ 18)]"
    by (simp add: transferBody_def env0_def con0_def)
  have s: "take 7 (sortRandom env0 [] (addresses env0)) = [''0xB3'', ''0xB2'', ''0xB1'']"
    by (simp add: env0_def)
  have x: "expectedOutcomes env0 con0 [''0xB3'', ''0xB2'', ''0xB1''] ([] @ [EvSortRandom])
      = [(''0xB3'', True), (''0xB2'', False), (''0xB1'', True)]"
    by (simp add: env0_def sent_def transferStep_def transferBody_def log_def)
  note t = distribute_isolates_failures [of env0 con0 "[]" "[]" "''0xB2''"]
  from t have 2: "\<exists>w'. sendToRandomAddresses env0 con0 [] = Return () w'
      \<and> List.map_filter transferTo (emitted [] w') = take 7 (sortRandom env0 [] (addresses env0))
      \<and> List.map_filter sendOutcome (emitted [] w')
          = expectedOutcomes env0 con0 (take 7 (sortRandom env0 [] (addresses env0)))
              ([] @ [EvSortRandom])"
    by (elim conjE)
  from t have 3: "\<forall>err w1. transferBody env0 con0 ''0xB2''
         (int (random50 env0 [] mod 50 + 1) * 10 ^ 18) ([] @ [EvRandom]) = Throw err w1
        \<longrightarrow> transferStep env0 con0 ''0xB2'' [] = Return () (w1 @ [EvLog (LogSendError ''0xB2'' err)])"
    by (elim conjE)
  from h 2 3 [rule_format, OF h] show ?thesis unfolding s x by (intro conjI)
qed

text \<open>
  What C7 says of the returned value does not hold: the function resolves to no value.
  With a recipient that rejects and with recipients that all accept, the outcomes differ
  and the returned value is the same.
\<close>

theorem distribute_returns_outcomes_counterexample:
  "returned (sendToRandomAddresses env0 con0 []) = Some ()
   \<and> returned (sendToRandomAddresses envAccept con0 []) = Some ()
   \<and> List.map_filter sendOutcome (world_of (sendToRandomAddresses env0 con0 []))
       = [(''0xB3'', True), (''0xB2'', False), (''0xB1'', True)]
   \<and> List.map_filter sendOutcome (world_of (sendToRandomAddresses envAccept con0 []))
       = [(''0xB3'', True), (''0xB2'', True), (''0xB1'', True)]"
  by (simp add: sendToRandomAddresses_def transferStep_def transferBody_def log_def
      envAccept_def env0_def con0_def)

section \<open>The slots of a cycle\<close>

text \<open>
  C5. One slot of mainLoop always returns, and sendToRandomAddresses is entered in it
  (its first act, the random sort, is in the history) exactly once if deployToken
  returned a contract and not at all if deployToken threw. After a successful
  deployment the slot is the deployment, its log line, sendToRandomAddresses on the
  contract just returned (every transfer call is on the address of that contract) and
  the delay; after a failed one it is the failed deployment, the failure log line and
  the delay, with no transfer call.
\<close>

theorem distribute_iff_deployed:
  "\<exists>w'. slotStep e wal i n w = Return () w'
     \<and> length (filter isSortRandom (emitted w w'))
         = (if returns (deployToken e wal (name n) (symbol n) w) then 1 else 0)
     \<and> (\<forall>c w1. deployToken e wal (name n) (symbol n) w = Return c w1 \<longrightarrow>
           w' = world_of (sendToRandomAddresses e c
                   (w1 @ [EvLog (LogSlotDeployed (i + 1) (name n) (symbol n) (target c))]))
                 @ [EvWait 3000]
           \<and> List.map_filter transferOn (emitted w w')
               = map (\<lambda>_. target c)
                   (take 7 (sortRandom e
                      (w1 @ [EvLog (LogSlotDeployed (i + 1) (name n) (symbol n) (target c))])
                      (addresses e))))
     \<and> (\<forall>err w1. deployToken e wal (name n) (symbol n) w = Throw err w1 \<longrightarrow>
           w' = w1 @ [EvLog (LogSlotFailed (name n) err), EvWait 3000]
           \<and> List.map_filter transferTo (emitted w w') = [])"
proof -
  from deployToken_extends [of e wal "name n" "symbol n" w]
  obtain evs1 where d: "world_of (deployToken e wal (name n) (symbol n) w)
        = w @ EvCompile (tokenSource e) # evs1"
    and p1: "filter isSortRandom evs1 = []" "List.map_filter transferOn evs1 = []"
      "List.map_filter transferTo evs1 = []"
    by (elim exE conjE)
  show ?thesis
  proof (cases "deployToken e wal (name n) (symbol n) w")
    case (Throw err w1)
    with d have w1: "w1 = w @ EvCompile (tokenSource e) # evs1" by simp
    let ?w' = "w1 @ [EvLog (LogSlotFailed (name n) err), EvWait 3000]"
    have "slotStep e wal i n w = Return () ?w'"
      using Throw by (simp add: slotStep_def slotBody_def log_def)
    moreover have "length (filter isSortRandom (emitted w ?w'))
        = (if returns (deployToken e wal (name n) (symbol n) w) then 1 else 0)"
      using Throw p1 by (simp add: w1)
    moreover have "List.map_filter transferTo (emitted w ?w') = []"
      using p1 by (simp add: w1)
    ultimately show ?thesis using Throw
      by (intro exI [of _ ?w']) simp
  next
    case (Return c w1)
    with d have w1: "w1 = w @ EvCompile (tokenSource e) # evs1" by simp
    let ?l = "EvLog (LogSlotDeployed (i + 1) (name n) (symbol n) (target c))"
    let ?ts = "take 7 (sortRandom e (w1 @ [?l]) (addresses e))"
    from sendToRandomAddresses_extends [of e c "w1 @ [?l]"]
    obtain evs2 where s: "sendToRandomAddresses e c (w1 @ [?l])
          = Return () ((w1 @ [?l]) @ EvSortRandom # evs2)"
      and p2: "filter isSortRandom evs2 = []"
        "List.map_filter transferOn evs2 = map (\<lambda>_. target c) ?ts"
      by (elim exE conjE)
    let ?w' = "world_of (sendToRandomAddresses e c (w1 @ [?l])) @ [EvWait 3000]"
    have w': "?w' = w @ (EvCompile (tokenSource e) # evs1 @ ?l # EvSortRandom # evs2 @ [EvWait 3000])"
      using s by (simp add: w1)
    have "slotStep e wal i n w = Return () ?w'"
      using Return s by (simp add: slotStep_def slotBody_def log_def)
    moreover have "length (filter isSortRandom (emitted w ?w'))
        = (if returns (deployToken e wal (name n) (symbol n) w) then 1 else 0)"
      unfolding w' using Return p1 p2 by simp
    moreover have "List.map_filter transferOn (emitted w ?w') = map (\<lambda>_. target c) ?ts"
      unfolding w' using p1 p2 by simp
    ultimately show ?thesis using Return
      by (intro exI [of _ ?w']) simp
  qed
qed

theorem distribute_iff_deployed_witness:
  "deployToken env0 wal0 (name alpha) (symbol alpha) []
     = Return con0 [EvCompile ''contract Token {}'', EvGetBalance ''0xA1'',
                    EvLog (LogBalance ''0xA1'' (10 ^ 18)), EvLog (LogDeploying ''alpha'' ''ALP''),
                    EvDeploy ''0xA1'' ''alpha'' ''ALP'' (10 ^ 21), EvLog (LogAwaiting ''0xT1''),
                    EvWaitForDeployment ''0xT1'', EvLog (LogDeployedAt ''0xC1'')]
   \<and> (\<exists>w'. slotStep env0 wal0 0 alpha [] = Return () w'
      \<and> length (filter isSortRandom (emitted [] w')) = 1
      \<and> List.map_filter transferOn (emitted [] w') = [''0xC1'', ''0xC1'', ''0xC1''])
   \<and> deployToken envPoor wal0 (name alpha) (symbol alpha) []
     = Throw BalanceTooLow [EvCompile ''contract Token {}'', EvGetBalance ''0xA1'',
                            EvLog (LogBalance ''0xA1'' 5)]
   \<and> (\<exists>w'. slotStep envPoor wal0 0 alpha [] = Return () w'
      \<and> length (filter isSortRandom (emitted [] w')) = 0
      \<and> List.map_filter transferTo (emitted [] w') = [])"
proof -
  let ?w1 = "[EvCompile ''contract Token {}'', EvGetBalance ''0xA1'',
              EvLog (LogBalance ''0xA1'' (10 ^ 18)), EvLog (LogDeploying ''alpha'' ''ALP''),
              EvDeploy ''0xA1'' ''alpha'' ''ALP'' (10 ^ 21), EvLog (LogAwaiting ''0xT1''),
              EvWaitForDeployment ''0xT1'', EvLog (LogDeployedAt ''0xC1'')]"
  let ?w2 = "[EvCompile ''contract Token {}'', EvGetBalance ''0xA1'',
              EvLog (LogBalance ''0xA1'' 5)]"
  have a: "deployToken env0 wal0 (name alpha) (symbol alpha) [] = Return con0 ?w1"
    by (simp add: env0_def deploy_unfold alpha_def wal0_def con0_def art0_def)
  have b: "deployToken envPoor wal0 (name alpha) (symbol alpha) [] = Throw BalanceTooLow ?w2"
    by (simp add: envPoor_def env0_def deploy_unfold alpha_def wal0_def)
  have ts: "map (\<lambda>_. target con0)
      (take 7 (sortRandom env0
         (?w1 @ [EvLog (LogSlotDeployed (0 + 1) (name alpha) (symbol alpha) (target con0))])
         (addresses env0))) = [''0xC1'', ''0xC1'', ''0xC1'']"
    by (simp add: env0_def con0_def)
  from distribute_iff_deployed [of env0 wal0 0 alpha "[]"]
  obtain w1 where 1: "slotStep env0 wal0 0 alpha [] = Return () w1"
    and 2: "length (filter isSortRandom (emitted [] w1))
      = (if returns (deployToken env0 wal0 (name alpha) (symbol alpha) []) then 1 else 0)"
    and 3: "\<forall>c w'. deployToken env0 wal0 (name alpha) (symbol alpha) [] = Return c w' \<longrightarrow>
           w1 = world_of (sendToRandomAddresses env0 c
                   (w' @ [EvLog (LogSlotDeployed (0 + 1) (name alpha) (symbol alpha) (target c))]))
                 @ [EvWait 3000]
           \<and> List.map_filter transferOn (emitted [] w1)
               = map (\<lambda>_. target c)
                   (take 7 (sortRandom env0
                      (w' @ [EvLog (LogSlotDeployed (0 + 1) (name alpha) (symbol alpha) (target c))])
                      (addresses env0)))"
    by (elim exE conjE)
  from distribute_iff_deployed [of envPoor wal0 0 alpha "[]"]
  obtain w2 where 4: "slotStep envPoor wal0 0 alpha [] = Return () w2"
    and 5: "length (filter isSortRandom (emitted [] w2))
      = (if returns (deployToken envPoor wal0 (name alpha) (symbol alpha) []) then 1 else 0)"
    and 6: "\<forall>err w'. deployToken envPoor wal0 (name alpha) (symbol alpha) [] = Throw err w' \<longrightarrow>
           w2 = w' @ [EvLog (LogSlotFailed (name alpha) err), EvWait 3000]
           \<and> List.map_filter transferTo (emitted [] w2) = []"
    by (elim exE conjE)
  from 3 [rule_format, OF a] have 7: "List.map_filter transferOn (emitted [] w1)
      = [''0xC1'', ''0xC1'', ''0xC1'']"
    unfolding ts by (rule conjunct2)
  from 6 [rule_format, OF b] have 8: "List.map_filter transferTo (emitted [] w2) = []"
    by (rule conjunct2)
  from 2 a have 9: "length (filter isSortRandom (emitted [] w1)) = 1" by simp
  from 5 b have 10: "length (filter isSortRandom (emitted [] w2)) = 0" by simp
  from 1 9 7 have x: "\<exists>w'. slotStep env0 wal0 0 alpha [] = Return () w'
      \<and> length (filter isSortRandom (emitted [] w')) = 1
      \<and> List.map_filter transferOn (emitted [] w') = [''0xC1'', ''0xC1'', ''0xC1'']"
    by (intro exI [of _ w1] conjI)
  from 4 10 8 have y: "\<exists>w'. slotStep envPoor wal0 0 alpha [] = Return () w'
      \<and> length (filter isSortRandom (emitted [] w')) = 0
      \<and> List.map_filter transferTo (emitted [] w') = []"
    by (intro exI [of _ w2] conjI)
  from a x b y show ?thesis by (intro conjI)
qed

text \<open>
  C9. A slot is a deployment attempt (starting with its compilation, and containing
  neither a second one nor a delay of 3000 ms) followed by the delay of 3000 ms as its
  last event, whether the attempt succeeded or failed. Restricted to the starts of
  attempts and the delays of 3000 ms, the history of a batch of names, and of a whole
  pass over the wallets, is a strict alternation: attempt, delay, attempt, delay, and
  so on. So between two consecutive attempts of a cycle there is always one delay.
\<close>

theorem pacing_delay:
  "(\<exists>attempt. slotStep e wal i n w = Return () (w @ attempt @ [EvWait 3000])
       \<and> filter isPacing attempt = [EvCompile (tokenSource e)])
   \<and> filter isPacing (emitted w (world_of (slotLoop e wal i names w)))
       = alternation (length names) (tokenSource e)
   \<and> (\<exists>k. filter isPacing (emitted w (world_of (walletLoop e ws w)))
            = alternation k (tokenSource e))"
proof (intro conjI)
  from slotStep_extends [of e wal i n w]
  obtain evs where s: "slotStep e wal i n w
        = Return () (w @ EvCompile (tokenSource e) # evs @ [EvWait 3000])"
    and p: "list_all calm evs"
    by (elim exE conjE)
  have "filter isPacing (EvCompile (tokenSource e) # evs) = [EvCompile (tokenSource e)]"
    using calm_pacing [OF p] by simp
  with s show "\<exists>attempt. slotStep e wal i n w = Return () (w @ attempt @ [EvWait 3000])
       \<and> filter isPacing attempt = [EvCompile (tokenSource e)]"
    by (intro exI [of _ "EvCompile (tokenSource e) # evs"]) simp
next
  from slotLoop_extends [of e wal i names w]
  obtain evs where "slotLoop e wal i names w = Return () (w @ evs)"
    "filter isPacing evs = alternation (length names) (tokenSource e)"
    by (elim exE conjE)
  then show "filter isPacing (emitted w (world_of (slotLoop e wal i names w)))
       = alternation (length names) (tokenSource e)"
    by simp
next
  from walletLoop_extends [of e ws w]
  obtain evs k where "world_of (walletLoop e ws w) = w @ evs"
    "filter isPacing evs = alternation k (tokenSource e)"
    by (elim exE conjE)
  then show "\<exists>k. filter isPacing (emitted w (world_of (walletLoop e ws w)))
            = alternation k (tokenSource e)"
    by (intro exI [of _ k]) simp
qed

theorem pacing_delay_witness:
  "filter isPacing (emitted [] (world_of (slotLoop envPoor wal0 0 [alpha, beta] [])))
     = [EvCompile (tokenSource envPoor), EvWait 3000, EvCompile (tokenSource envPoor), EvWait 3000]"
  using pacing_delay [of envPoor wal0 0 alpha "[]" "[alpha, beta]" "[]"]
  by (simp add: alternation_def numeral_2_eq_2)

section \<open>The name generator in a history\<close>

lemma generatedNames_append:
  "generatedNames e w (xs @ ys) = generatedNames e w xs @ generatedNames e (w @ xs) ys"
  by (induction xs arbitrary: w) simp_all

lemma generatorHeld_append:
  "generatorHeld e w (xs @ ys) = (generatorHeld e w xs \<and> generatorHeld e (w @ xs) ys)"
  by (induction xs arbitrary: w) simp_all

lemma quiet_generator:
  "filter isGenerateNames evs = [] \<Longrightarrow> generatedNames e w evs = [] \<and> generatorHeld e w evs"
proof (induction evs arbitrary: w)
  case Nil
  show ?case by simp
next
  case (Cons ev evs)
  then have "\<not> isGenerateNames ev" "filter isGenerateNames evs = []"
    by (simp_all split: if_splits)
  with Cons.IH [of "w @ [ev]"] show ?case by simp
qed

lemma generatorHeld_at:
  "generatorHeld e w (x @ ev # y) \<Longrightarrow> isGenerateNames ev \<Longrightarrow>
   \<not> isl (generateUniqueNames e (w @ x) 5)"
  by (simp add: generatorHeld_append)

lemma calm_wallet: "list_all calm evs \<Longrightarrow> List.map_filter walletUsed evs = []"
  by (induction evs) (simp_all add: calm_def)

lemma slotLoop_wallet:
  "\<exists>evs. slotLoop e wal i names w = Return () (w @ evs) \<and> List.map_filter walletUsed evs = []"
proof (induction names arbitrary: w i)
  case Nil
  show ?case by (intro exI [of _ "[]"]) simp
next
  case (Cons n names)
  from slotStep_extends [of e wal i n w]
  obtain evs1 where s: "slotStep e wal i n w
        = Return () (w @ EvCompile (tokenSource e) # evs1 @ [EvWait 3000])"
    and p1: "list_all calm evs1"
    by (elim exE conjE)
  let ?b = "EvCompile (tokenSource e) # evs1 @ [EvWait 3000]"
  from Cons.IH [of "i + 1" "w @ ?b"]
  obtain evs2 where l: "slotLoop e wal (i + 1) names (w @ ?b) = Return () ((w @ ?b) @ evs2)"
    and p2: "List.map_filter walletUsed evs2 = []"
    by (elim exE conjE)
  have "slotLoop e wal i (n # names) w = Return () (w @ (?b @ evs2))"
    using s l by simp
  moreover have "List.map_filter walletUsed (?b @ evs2) = []"
    using calm_wallet [OF p1] p2 by simp
  ultimately show ?case by (intro exI [of _ "?b @ evs2"] conjI)
qed

text \<open>The two ways a turn to a wallet can go.\<close>

lemma walletStep_cases:
  "(\<exists>m. generateUniqueNames e (w @ [EvLog (LogUsingWallet (wallet_address wal))]) 5 = Inl m
       \<and> walletStep e wal w
           = Throw (Thrown m) (w @ [EvLog (LogUsingWallet (wallet_address wal)), EvGenerateNames 5]))
   \<or> (\<exists>names evs.
         generateUniqueNames e (w @ [EvLog (LogUsingWallet (wallet_address wal))]) 5 = Inr names
       \<and> walletStep e wal w
           = Return () (w @ [EvLog (LogUsingWallet (wallet_address wal)), EvGenerateNames 5,
                             EvLog (LogGeneratedNames (map name names))] @ evs)
       \<and> filter isGenerateNames evs = []
       \<and> List.map_filter walletUsed evs = []
       \<and> map fst (List.map_filter slotOutcome evs) = map name names)"
proof (cases "generateUniqueNames e (w @ [EvLog (LogUsingWallet (wallet_address wal))]) 5")
  case (Inl m)
  from walletStep_throw [OF Inl] Inl show ?thesis by simp
next
  case (Inr names)
  let ?p = "[EvLog (LogUsingWallet (wallet_address wal)), EvGenerateNames 5,
             EvLog (LogGeneratedNames (map name names))]"
  from slotLoop_extends [of e wal 0 names "w @ ?p"]
  obtain evs where l: "slotLoop e wal 0 names (w @ ?p) = Return () ((w @ ?p) @ evs)"
    and p: "filter isGenerateNames evs = []"
      "map fst (List.map_filter slotOutcome evs) = map name names"
    by (elim exE conjE)
  from slotLoop_wallet [of e wal 0 names "w @ ?p"] l
  have q: "List.map_filter walletUsed evs = []" by auto
  have "walletStep e wal w = Return () (w @ ?p @ evs)"
    using Inr l by (simp add: walletStep_def log_def)
  with Inr p q show ?thesis
    by (intro disjI2 exI [of _ names] exI [of _ evs] conjI)
qed

text \<open>What a pass over the wallets leaves, with respect to the name generator.\<close>

lemma walletLoop_names:
  "\<exists>evs. world_of (walletLoop e ws w) = w @ evs
     \<and> map fst (List.map_filter slotOutcome evs) = generatedNames e w evs
     \<and> (returns (walletLoop e ws w) \<longrightarrow>
          List.map_filter walletUsed evs = map wallet_address ws \<and> generatorHeld e w evs)
     \<and> (\<forall>err w'. walletLoop e ws w = Throw err w' \<longrightarrow>
          (\<exists>pre m. evs = pre @ [EvGenerateNames 5] \<and> generatorHeld e w pre
             \<and> generateUniqueNames e (w @ pre) 5 = Inl m \<and> err = Thrown m))"
proof (induction ws arbitrary: w)
  case Nil
  show ?case by (intro exI [of _ "[]"]) simp
next
  case (Cons wal ws)
  let ?l = "EvLog (LogUsingWallet (wallet_address wal))"
  from walletStep_cases [of e w wal] show ?case
  proof (elim disjE exE conjE)
    fix m
    assume g: "generateUniqueNames e (w @ [?l]) 5 = Inl m"
      and s: "walletStep e wal w = Throw (Thrown m) (w @ [?l, EvGenerateNames 5])"
    let ?evs = "[?l, EvGenerateNames 5]"
    have 1: "world_of (walletLoop e (wal # ws) w) = w @ ?evs" using s by simp
    have 2: "map fst (List.map_filter slotOutcome ?evs) = generatedNames e w ?evs"
      using g by simp
    have 3: "returns (walletLoop e (wal # ws) w) \<longrightarrow>
          List.map_filter walletUsed ?evs = map wallet_address (wal # ws) \<and> generatorHeld e w ?evs"
      using s by simp
    have 4: "\<forall>err w'. walletLoop e (wal # ws) w = Throw err w' \<longrightarrow>
          (\<exists>pre m. ?evs = pre @ [EvGenerateNames 5] \<and> generatorHeld e w pre
             \<and> generateUniqueNames e (w @ pre) 5 = Inl m \<and> err = Thrown m)"
      using s g by (auto intro!: exI [of _ "[?l]"])
    from 1 2 3 4 show ?thesis by (intro exI [of _ ?evs] conjI)
  next
    fix names evs1
    assume g: "generateUniqueNames e (w @ [?l]) 5 = Inr names"
      and s: "walletStep e wal w
           = Return () (w @ [?l, EvGenerateNames 5, EvLog (LogGeneratedNames (map name names))] @ evs1)"
      and p: "filter isGenerateNames evs1 = []" "List.map_filter walletUsed evs1 = []"
        "map fst (List.map_filter slotOutcome evs1) = map name names"
    let ?h = "[?l, EvGenerateNames 5, EvLog (LogGeneratedNames (map name names))]"
    let ?b = "?h @ evs1"
    note q = quiet_generator [OF p(1)]
    have gb: "generatedNames e w ?b = map name names"
      using g q [of e "w @ ?h"] by simp
    have hb: "generatorHeld e w ?b"
      using g q [of e "w @ ?h"] by simp
    have ob: "map fst (List.map_filter slotOutcome ?b) = map name names"
      using p(3) by simp
    have ub: "List.map_filter walletUsed ?b = [wallet_address wal]"
      using p(2) by simp
    from Cons.IH [of "w @ ?b"]
    obtain evs2 where l: "world_of (walletLoop e ws (w @ ?b)) = (w @ ?b) @ evs2"
      and n: "map fst (List.map_filter slotOutcome evs2) = generatedNames e (w @ ?b) evs2"
      and r: "returns (walletLoop e ws (w @ ?b)) \<longrightarrow>
          List.map_filter walletUsed evs2 = map wallet_address ws \<and> generatorHeld e (w @ ?b) evs2"
      and t: "\<forall>err w'. walletLoop e ws (w @ ?b) = Throw err w' \<longrightarrow>
          (\<exists>pre m. evs2 = pre @ [EvGenerateNames 5] \<and> generatorHeld e (w @ ?b) pre
             \<and> generateUniqueNames e ((w @ ?b) @ pre) 5 = Inl m \<and> err = Thrown m)"
      by (elim exE conjE)
    have u: "walletLoop e (wal # ws) w = walletLoop e ws (w @ ?b)" using s by simp
    have 1: "world_of (walletLoop e (wal # ws) w) = w @ (?b @ evs2)"
      unfolding u using l by simp
    have 2: "map fst (List.map_filter slotOutcome (?b @ evs2)) = generatedNames e w (?b @ evs2)"
      unfolding generatedNames_append [of e w ?b evs2] gb
      using ob n by simp
    have 3: "returns (walletLoop e (wal # ws) w) \<longrightarrow>
          List.map_filter walletUsed (?b @ evs2) = map wallet_address (wal # ws)
          \<and> generatorHeld e w (?b @ evs2)"
      unfolding u generatorHeld_append [of e w ?b evs2]
      using r ub hb by simp
    have 4: "\<forall>err w'. walletLoop e (wal # ws) w = Throw err w' \<longrightarrow>
          (\<exists>pre m. ?b @ evs2 = pre @ [EvGenerateNames 5] \<and> generatorHeld e w pre
             \<and> generateUniqueNames e (w @ pre) 5 = Inl m \<and> err = Thrown m)"
    proof (intro allI impI)
      fix err w'
      assume "walletLoop e (wal # ws) w = Throw err w'"
      with u t obtain pre m where x: "evs2 = pre @ [EvGenerateNames 5]"
        "generatorHeld e (w @ ?b) pre" "generateUniqueNames e ((w @ ?b) @ pre) 5 = Inl m"
        "err = Thrown m"
        by auto
      have "generatorHeld e w (?b @ pre)"
        unfolding generatorHeld_append [of e w ?b pre] using hb x(2) by simp
      with x show "\<exists>pre m. ?b @ evs2 = pre @ [EvGenerateNames 5] \<and> generatorHeld e w pre
             \<and> generateUniqueNames e (w @ pre) 5 = Inl m \<and> err = Thrown m"
        by (intro exI [of _ "?b @ pre"] exI [of _ m]) simp
    qed
    from 1 2 3 4 show ?thesis by (intro exI [of _ "?b @ evs2"] conjI)
  qed
qed

lemma waitLoop_quiet:
  "\<exists>evs. wait_world (waitLoop k e n w) = w @ evs
     \<and> filter isGenerateNames evs = [] \<and> List.map_filter slotOutcome evs = []"
proof (induction k arbitrary: w)
  case 0
  show ?case by (intro exI [of _ "[]"]) simp
next
  case (Suc k)
  let ?t = "now e w"
  let ?t2 = "now e (w @ [EvNow ?t])"
  show ?case
  proof (cases "earlier ?t n")
    case False
    then show ?thesis by (intro exI [of _ "[EvNow ?t]"]) (simp add: Let_def)
  next
    case True
    show ?thesis
    proof (cases "remainingDate n ?t2")
      case None
      with True show ?thesis
        by (intro exI [of _ "[EvNow ?t, EvNow ?t2]"]) (simp add: Let_def)
    next
      case (Some r)
      let ?b = "[EvNow ?t, EvNow ?t2, EvStatus (Some r), EvWait 1000]"
      have u: "waitLoop (Suc k) e n w = waitLoop k e n (w @ ?b)"
        using True Some by (simp add: Let_def)
      from Suc.IH [of "w @ ?b"]
      obtain evs where x: "wait_world (waitLoop k e n (w @ ?b)) = (w @ ?b) @ evs"
        and q: "filter isGenerateNames evs = []" "List.map_filter slotOutcome evs = []"
        by (elim exE conjE)
      have "wait_world (waitLoop (Suc k) e n w) = w @ (?b @ evs)"
        unfolding u using x by simp
      moreover have "filter isGenerateNames (?b @ evs) = []" using q by simp
      moreover have "List.map_filter slotOutcome (?b @ evs) = []" using q by simp
      ultimately show ?thesis by (intro exI [of _ "?b @ evs"] conjI)
    qed
  qed
qed

text \<open>What the rounds of mainLoop leave, with respect to the name generator.\<close>

lemma mainRounds_names:
  "\<exists>evs. loop_world (mainRounds k p e w) = w @ evs
     \<and> map fst (List.map_filter slotOutcome evs) = generatedNames e w evs
     \<and> (\<forall>err w'. mainRounds k p e w = Rejected err w' \<longrightarrow>
          (\<exists>pre m. evs = pre @ [EvGenerateNames 5] \<and> generatorHeld e w pre
             \<and> generateUniqueNames e (w @ pre) 5 = Inl m \<and> err = Thrown m)
          \<or> generatorHeld e w evs)
     \<and> ((\<forall>err w'. mainRounds k p e w \<noteq> Rejected err w') \<longrightarrow> generatorHeld e w evs)"
proof (induction k arbitrary: w)
  case 0
  show ?case by (intro exI [of _ "[]"]) simp
next
  case (Suc k)
  let ?t = "now e w"
  let ?h = "[EvNow ?t, EvLog (LogCycleStart ?t)]"
  let ?n = "timeClip (?t + 24 * 60 * 60 * 1000)"
  from walletLoop_names [of e "wallets e" "w @ ?h"]
  obtain evs1 where c: "world_of (walletLoop e (wallets e) (w @ ?h)) = (w @ ?h) @ evs1"
    and n1: "map fst (List.map_filter slotOutcome evs1) = generatedNames e (w @ ?h) evs1"
    and r1: "returns (walletLoop e (wallets e) (w @ ?h)) \<longrightarrow>
          List.map_filter walletUsed evs1 = map wallet_address (wallets e)
          \<and> generatorHeld e (w @ ?h) evs1"
    and t1: "\<forall>err w'. walletLoop e (wallets e) (w @ ?h) = Throw err w' \<longrightarrow>
          (\<exists>pre m. evs1 = pre @ [EvGenerateNames 5] \<and> generatorHeld e (w @ ?h) pre
             \<and> generateUniqueNames e ((w @ ?h) @ pre) 5 = Inl m \<and> err = Thrown m)"
    by (elim exE conjE)
  have nh: "map fst (List.map_filter slotOutcome (?h @ evs1)) = generatedNames e w (?h @ evs1)"
    unfolding generatedNames_append [of e w ?h evs1] using n1 by simp
  show ?case
  proof (cases "walletLoop e (wallets e) (w @ ?h)")
    case (Throw err w2)
    with c have w2: "w2 = w @ ?h @ evs1" by simp
    have m: "mainRounds (Suc k) p e w = Rejected err (w @ ?h @ evs1)"
      using Throw w2 by (simp add: Let_def log_def)
    from t1 Throw obtain pre m where x: "evs1 = pre @ [EvGenerateNames 5]"
      "generatorHeld e (w @ ?h) pre" "generateUniqueNames e ((w @ ?h) @ pre) 5 = Inl m"
      "err = Thrown m"
      by auto
    have hp: "generatorHeld e w (?h @ pre)"
      unfolding generatorHeld_append [of e w ?h pre] using x(2) by simp
    have 1: "loop_world (mainRounds (Suc k) p e w) = w @ (?h @ evs1)" using m by simp
    have 3: "\<forall>err' w'. mainRounds (Suc k) p e w = Rejected err' w' \<longrightarrow>
          (\<exists>pre m. ?h @ evs1 = pre @ [EvGenerateNames 5] \<and> generatorHeld e w pre
             \<and> generateUniqueNames e (w @ pre) 5 = Inl m \<and> err' = Thrown m)
          \<or> generatorHeld e w (?h @ evs1)"
    proof (intro allI impI disjI1)
      fix err' w'
      assume "mainRounds (Suc k) p e w = Rejected err' w'"
      with m have "err' = err" by simp
      with x hp show "\<exists>pre m. ?h @ evs1 = pre @ [EvGenerateNames 5] \<and> generatorHeld e w pre
             \<and> generateUniqueNames e (w @ pre) 5 = Inl m \<and> err' = Thrown m"
        by (intro exI [of _ "?h @ pre"] exI [of _ m]) simp
    qed
    have 4: "(\<forall>err' w'. mainRounds (Suc k) p e w \<noteq> Rejected err' w')
        \<longrightarrow> generatorHeld e w (?h @ evs1)"
      using m by simp
    from 1 nh 3 4 show ?thesis by (intro exI [of _ "?h @ evs1"] conjI)
  next
    case (Return u w2)
    with c have w2: "w2 = w @ ?h @ evs1" by simp
    from r1 Return have h1: "generatorHeld e (w @ ?h) evs1" by simp
    have hh: "generatorHeld e w (?h @ evs1)"
      unfolding generatorHeld_append [of e w ?h evs1] using h1 by simp
    from waitLoop_quiet [of p e ?n w2]
    obtain evs2 where x: "wait_world (waitLoop p e ?n w2) = w2 @ evs2"
      and q: "filter isGenerateNames evs2 = []" "List.map_filter slotOutcome evs2 = []"
      by (elim exE conjE)
    note qg = quiet_generator [OF q(1), of e "w @ ?h @ evs1"]
    let ?c = "(?h @ evs1) @ evs2"
    have nc: "map fst (List.map_filter slotOutcome ?c) = generatedNames e w ?c"
      unfolding generatedNames_append [of e w "?h @ evs1" evs2] using nh q(2) qg by simp
    have hc: "generatorHeld e w ?c"
      unfolding generatorHeld_append [of e w "?h @ evs1" evs2] using hh qg by simp
    show ?thesis
    proof (cases "waitLoop p e ?n w2")
      case (Waiting w3)
      with x have w3: "w3 = w2 @ evs2" by simp
      have m: "mainRounds (Suc k) p e w = CountingDown (w @ ?c)"
        using Return Waiting w2 w3 by (simp add: Let_def log_def)
      from m nc hc show ?thesis by (intro exI [of _ ?c] conjI) simp_all
    next
      case (Failed err w3)
      with x have w3: "w3 = w2 @ evs2" by simp
      have m: "mainRounds (Suc k) p e w = Rejected err (w @ ?c)"
        using Return Failed w2 w3 by (simp add: Let_def log_def)
      from m nc hc show ?thesis by (intro exI [of _ ?c] conjI) simp_all
    next
      case (Elapsed w3)
      with x have w3: "w3 = w @ ?c" by (simp add: w2)
      have m: "mainRounds (Suc k) p e w = mainRounds k p e (w @ ?c)"
        using Return Elapsed w2 w3 by (simp add: Let_def log_def)
      from Suc.IH [of "w @ ?c"]
      obtain evs3 where l: "loop_world (mainRounds k p e (w @ ?c)) = (w @ ?c) @ evs3"
        and n3: "map fst (List.map_filter slotOutcome evs3) = generatedNames e (w @ ?c) evs3"
        and t3: "\<forall>err w'. mainRounds k p e (w @ ?c) = Rejected err w' \<longrightarrow>
          (\<exists>pre m. evs3 = pre @ [EvGenerateNames 5] \<and> generatorHeld e (w @ ?c) pre
             \<and> generateUniqueNames e ((w @ ?c) @ pre) 5 = Inl m \<and> err = Thrown m)
          \<or> generatorHeld e (w @ ?c) evs3"
        and r3: "(\<forall>err w'. mainRounds k p e (w @ ?c) \<noteq> Rejected err w')
          \<longrightarrow> generatorHeld e (w @ ?c) evs3"
        by (elim exE conjE)
      have 1: "loop_world (mainRounds (Suc k) p e w) = w @ (?c @ evs3)"
        unfolding m using l by simp
      have 2: "map fst (List.map_filter slotOutcome (?c @ evs3)) = generatedNames e w (?c @ evs3)"
        unfolding generatedNames_append [of e w ?c evs3] using nc n3 by simp
      have 3: "\<forall>err w'. mainRounds (Suc k) p e w = Rejected err w' \<longrightarrow>
          (\<exists>pre m. ?c @ evs3 = pre @ [EvGenerateNames 5] \<and> generatorHeld e w pre
             \<and> generateUniqueNames e (w @ pre) 5 = Inl m \<and> err = Thrown m)
          \<or> generatorHeld e w (?c @ evs3)"
      proof (intro allI impI)
        fix err w'
        assume "mainRounds (Suc k) p e w = Rejected err w'"
        with m t3 have "(\<exists>pre m. evs3 = pre @ [EvGenerateNames 5] \<and> generatorHeld e (w @ ?c) pre
             \<and> generateUniqueNames e ((w @ ?c) @ pre) 5 = Inl m \<and> err = Thrown m)
          \<or> generatorHeld e (w @ ?c) evs3"
          by simp
        then show "(\<exists>pre m. ?c @ evs3 = pre @ [EvGenerateNames 5] \<and> generatorHeld e w pre
             \<and> generateUniqueNames e (w @ pre) 5 = Inl m \<and> err = Thrown m)
          \<or> generatorHeld e w (?c @ evs3)"
        proof (elim disjE exE conjE)
          fix pre m
          assume y: "evs3 = pre @ [EvGenerateNames 5]" "generatorHeld e (w @ ?c) pre"
            "generateUniqueNames e ((w @ ?c) @ pre) 5 = Inl m" "err = Thrown m"
          have "generatorHeld e w (?c @ pre)"
            unfolding generatorHeld_append [of e w ?c pre] using hc y(2) by simp
          with y show ?thesis
            by (intro disjI1 exI [of _ "?c @ pre"] exI [of _ m]) simp
        next
          assume "generatorHeld e (w @ ?c) evs3"
          with hc have "generatorHeld e w (?c @ evs3)"
            unfolding generatorHeld_append [of e w ?c evs3] by simp
          then show ?thesis by (rule disjI2)
        qed
      qed
      have 4: "(\<forall>err w'. mainRounds (Suc k) p e w \<noteq> Rejected err w')
          \<longrightarrow> generatorHeld e w (?c @ evs3)"
        unfolding m generatorHeld_append [of e w ?c evs3] using r3 hc by simp
      from 1 2 3 4 show ?thesis by (intro exI [of _ "?c @ evs3"] conjI)
    qed
  qed
qed

lemma split_at:
  "xs @ a # ys = xs' @ a' # ys' \<Longrightarrow>
   (xs = xs' \<and> a = a' \<and> ys = ys')
   \<or> (\<exists>z. xs' = xs @ a # z \<and> ys = z @ a' # ys')
   \<or> (\<exists>z. xs = xs' @ a' # z \<and> ys' = z @ a # ys)"
  by (auto simp add: append_eq_append_conv2 append_eq_Cons_conv Cons_eq_append_conv)

section \<open>The countdown under an ordinary clock\<close>

lemma ordinaryClock_read: "ordinaryClock e \<Longrightarrow> 0 \<le> now e w \<and> now e w + day \<le> maxTime"
  by (simp add: ordinaryClock_def)

lemma day_positive: "0 < day"
  by (simp add: day_def)

lemma nextRun_valid:
  assumes "ordinaryClock e"
  shows "timeClip (now e w + 24 * 60 * 60 * 1000) = Some (now e w + day)"
  using ordinaryClock_read [OF assms, of w] by (simp add: timeClip_def day_def maxTime_def)

lemma remaining_valid:
  assumes "ordinaryClock e" and "0 \<le> n" and "n \<le> maxTime"
  shows "remainingDate (Some n) (now e w) = Some (n - now e w)"
  using ordinaryClock_read [OF assms(1), of w] assms(2,3) day_positive
  by (simp add: timeClip_def)

lemma countdown_Cons: "countdown n (ab # ps) = countdownRound n ab @ countdown n ps"
  by (simp add: countdown_def)

lemma countdown_Nil: "countdown n [] = []"
  by (simp add: countdown_def)

text \<open>The shape of a countdown under an ordinary clock.\<close>

lemma waitLoop_countdown:
  assumes "ordinaryClock e" and "0 \<le> n" and "n \<le> maxTime"
  shows "\<exists>ps. waiting n ps
     \<and> (\<forall>w'. waitLoop k e (Some n) w = Elapsed w' \<longrightarrow>
            (\<exists>c. w' = w @ countdown n ps @ [EvNow c] \<and> n \<le> c))
     \<and> (\<forall>w'. waitLoop k e (Some n) w = Waiting w' \<longrightarrow>
            w' = w @ countdown n ps \<and> length ps = k)
     \<and> (\<forall>err w'. waitLoop k e (Some n) w \<noteq> Failed err w')"
proof (induction k arbitrary: w)
  case 0
  show ?case by (intro exI [of _ "[]"]) (simp add: waiting_def countdown_Nil)
next
  case (Suc k)
  let ?t = "now e w"
  let ?t2 = "now e (w @ [EvNow ?t])"
  show ?case
  proof (cases "?t < n")
    case False
    then have "waitLoop (Suc k) e (Some n) w = Elapsed (w @ [EvNow ?t])"
      by (simp add: Let_def)
    with False show ?thesis
      by (intro exI [of _ "[]"]) (simp add: waiting_def countdown_Nil)
  next
    case True
    let ?b = "countdownRound n (?t, ?t2)"
    have r: "remainingDate (Some n) ?t2 = Some (n - ?t2)"
      using assms by (rule remaining_valid)
    have u: "waitLoop (Suc k) e (Some n) w = waitLoop k e (Some n) (w @ ?b)"
      using True r by (simp add: Let_def countdownRound_def)
    from Suc.IH [of "w @ ?b"]
    obtain ps where a: "waiting n ps"
      and b: "\<forall>w'. waitLoop k e (Some n) (w @ ?b) = Elapsed w' \<longrightarrow>
            (\<exists>c. w' = (w @ ?b) @ countdown n ps @ [EvNow c] \<and> n \<le> c)"
      and c: "\<forall>w'. waitLoop k e (Some n) (w @ ?b) = Waiting w' \<longrightarrow>
            w' = (w @ ?b) @ countdown n ps \<and> length ps = k"
      and d: "\<forall>err w'. waitLoop k e (Some n) (w @ ?b) \<noteq> Failed err w'"
      by (elim exE conjE)
    have 1: "waiting n ((?t, ?t2) # ps)" using a True by (simp add: waiting_def)
    have 2: "\<forall>w'. waitLoop (Suc k) e (Some n) w = Elapsed w' \<longrightarrow>
            (\<exists>c. w' = w @ countdown n ((?t, ?t2) # ps) @ [EvNow c] \<and> n \<le> c)"
      unfolding u countdown_Cons using b by simp
    have 3: "\<forall>w'. waitLoop (Suc k) e (Some n) w = Waiting w' \<longrightarrow>
            w' = w @ countdown n ((?t, ?t2) # ps) \<and> length ((?t, ?t2) # ps) = Suc k"
      unfolding u countdown_Cons using c by simp
    have 4: "\<forall>err w'. waitLoop (Suc k) e (Some n) w \<noteq> Failed err w'"
      unfolding u using d by simp
    from 1 2 3 4 show ?thesis by (intro exI [of _ "(?t, ?t2) # ps"] conjI)
  qed
qed

lemma mainRounds_running:
  assumes "\<And>w'. \<exists>names. generateUniqueNames e w' 5 = Inr names" and "ordinaryClock e"
  shows "mainRounds k p e w \<noteq> Rejected err w'"
proof (induction k arbitrary: w)
  case 0
  show ?case by simp
next
  case (Suc k)
  let ?t = "now e w"
  let ?w1 = "log (LogCycleStart ?t) (w @ [EvNow ?t])"
  have "returns (walletLoop e (wallets e) ?w1)"
    using assms(1) by (rule walletLoop_returns)
  then obtain u w2 where c: "walletLoop e (wallets e) ?w1 = Return u w2"
    by (cases "walletLoop e (wallets e) ?w1") simp_all
  have nv: "timeClip (?t + 24 * 60 * 60 * 1000) = Some (?t + day)"
    using assms(2) by (rule nextRun_valid)
  have b: "0 \<le> ?t + day" "?t + day \<le> maxTime"
    using ordinaryClock_read [OF assms(2), of w] day_positive by simp_all
  from waitLoop_countdown [OF assms(2) b, of p w2]
  have nf: "\<And>err w'. waitLoop p e (Some (?t + day)) w2 \<noteq> Failed err w'" by auto
  have m: "mainRounds (Suc k) p e w =
      (case waitLoop p e (Some (?t + day)) w2 of
         Waiting w3 \<Rightarrow> CountingDown w3
       | Failed err w3 \<Rightarrow> Rejected err w3
       | Elapsed w3 \<Rightarrow> mainRounds k p e w3)"
    using c nv by (simp add: Let_def)
  show ?case
  proof (cases "waitLoop p e (Some (?t + day)) w2")
    case (Elapsed w3)
    with m Suc.IH [of w3] show ?thesis by simp
  next
    case (Waiting w3)
    with m show ?thesis by simp
  next
    case (Failed err2 w3)
    with nf [of err2 w3] have False by (elim notE)
    then show ?thesis ..
  qed
qed

text \<open>The whole history of the process, with respect to the name generator.\<close>

lemma process_names:
  "map fst (List.map_filter slotOutcome (process_world (start rounds patience e)))
     = generatedNames e [] (process_world (start rounds patience e))"
proof -
  from mainRounds_names [of rounds patience e "[EvStatus None]"]
  obtain evs where l: "loop_world (mainRounds rounds patience e [EvStatus None])
        = [EvStatus None] @ evs"
    and n: "map fst (List.map_filter slotOutcome evs) = generatedNames e [EvStatus None] evs"
    by (elim exE conjE)
  show ?thesis
  proof (cases "mainRounds rounds patience e [EvStatus None]")
    case (BetweenCycles w)
    with l n show ?thesis by (simp add: start_def mainLoop_def)
  next
    case (CountingDown w)
    with l n show ?thesis by (simp add: start_def mainLoop_def)
  next
    case (Rejected err w)
    with l have w: "w = [EvStatus None] @ evs" by simp
    have "generatedNames e ([EvStatus None] @ evs) [EvLog (LogFatal err), EvExit 1] = []"
      by simp
    with n Rejected show ?thesis
      by (simp add: start_def mainLoop_def log_def w generatedNames_append)
  qed
qed

section \<open>Failure of the name generator\<close>

text \<open>
  C2, as the code has it. generateUniqueNames is called outside every try block of
  mainLoop. So in every run of the process, for any wallet of any cycle: when a call of
  the name generator in the history of the process (w0 is the history before the call)
  throws, that call is the last thing mainLoop does. The exception leaves the loop over
  the wallets and mainLoop, the handler attached to mainLoop logs it as fatal, and the
  process exits with status 1: no slot of that wallet is attempted, no later wallet is
  turned to and no countdown is started.
\<close>

theorem name_generation_failure_is_fatal:
  assumes "process_world (start rounds patience e) = w0 @ EvGenerateNames n # rest"
    and "generateUniqueNames e w0 5 = Inl m"
  shows "start rounds patience e
           = Exited 1 (w0 @ [EvGenerateNames 5, EvLog (LogFatal (Thrown m)), EvExit 1])"
proof -
  let ?s = "EvStatus None"
  from mainRounds_names [of rounds patience e "[?s]"]
  obtain evs where l: "loop_world (mainRounds rounds patience e [?s]) = [?s] @ evs"
    and rej: "\<forall>err w'. mainRounds rounds patience e [?s] = Rejected err w' \<longrightarrow>
          (\<exists>pre m. evs = pre @ [EvGenerateNames 5] \<and> generatorHeld e [?s] pre
             \<and> generateUniqueNames e ([?s] @ pre) 5 = Inl m \<and> err = Thrown m)
          \<or> generatorHeld e [?s] evs"
    and held: "(\<forall>err w'. mainRounds rounds patience e [?s] \<noteq> Rejected err w')
          \<longrightarrow> generatorHeld e [?s] evs"
    by (elim exE conjE)
  have threw: "isl (generateUniqueNames e ([] @ w0) 5)" using assms(2) by simp
  have no: "\<not> generatorHeld e [] (w0 @ EvGenerateNames n # y)" for y
    using generatorHeld_at [of e "[]" w0 "EvGenerateNames n" y] threw by auto
  show ?thesis
  proof (cases "mainRounds rounds patience e [?s]")
    case (BetweenCycles w')
    with l held have "process_world (start rounds patience e) = [?s] @ evs"
      "generatorHeld e [] ([?s] @ evs)"
      by (simp_all add: start_def mainLoop_def)
    with assms(1) no show ?thesis by simp
  next
    case (CountingDown w')
    with l held have "process_world (start rounds patience e) = [?s] @ evs"
      "generatorHeld e [] ([?s] @ evs)"
      by (simp_all add: start_def mainLoop_def)
    with assms(1) no show ?thesis by simp
  next
    case (Rejected err w')
    with l have w': "w' = [?s] @ evs" by simp
    have st: "start rounds patience e = Exited 1 (([?s] @ evs) @ [EvLog (LogFatal err), EvExit 1])"
      using Rejected w' by (simp add: start_def mainLoop_def log_def)
    from rej Rejected
    have "(\<exists>pre m. evs = pre @ [EvGenerateNames 5] \<and> generatorHeld e [?s] pre
             \<and> generateUniqueNames e ([?s] @ pre) 5 = Inl m \<and> err = Thrown m)
          \<or> generatorHeld e [?s] evs"
      by simp
    then show ?thesis
    proof (elim disjE exE conjE)
      assume "generatorHeld e [?s] evs"
      then have "generatorHeld e [] (([?s] @ evs) @ [EvLog (LogFatal err), EvExit 1])"
        by (simp add: generatorHeld_append)
      with st assms(1) no show ?thesis by simp
    next
      fix pre m'
      assume x: "evs = pre @ [EvGenerateNames 5]" "generatorHeld e [?s] pre"
        "generateUniqueNames e ([?s] @ pre) 5 = Inl m'" "err = Thrown m'"
      let ?p = "[?s] @ pre"
      have hp: "generatorHeld e [] ?p" using x(2) by simp
      have eq: "?p @ EvGenerateNames 5 # [EvLog (LogFatal err), EvExit 1]
          = w0 @ EvGenerateNames n # rest"
        using st assms(1) x(1) by simp
      from split_at [OF eq] show ?thesis
      proof (elim disjE exE conjE)
        assume y: "?p = w0" "EvGenerateNames 5 = EvGenerateNames n"
          "[EvLog (LogFatal err), EvExit 1] = rest"
        with x(3) assms(2) have "m' = m" by simp
        with st x(1,4) y(1) show ?thesis by simp
      next
        fix z
        assume "w0 = ?p @ EvGenerateNames 5 # z"
          and "[EvLog (LogFatal err), EvExit 1] = z @ EvGenerateNames n # rest"
        then have False
          by (auto simp add: Cons_eq_append_conv)
        then show ?thesis ..
      next
        fix z
        assume y: "?p = w0 @ EvGenerateNames n # z"
        have "generatorHeld e [] (w0 @ EvGenerateNames n # z)" using hp unfolding y .
        with no [of z] have False by (elim notE)
        then show ?thesis ..
      qed
    qed
  qed
qed

theorem name_generation_failure_is_fatal_witness:
  "process_world (start 2 1 envLate)
     = historyLate @ EvGenerateNames 5
         # [EvLog (LogFatal (Thrown ''GenerationExhausted'')), EvExit 1]
   \<and> generateUniqueNames envLate historyLate 5 = Inl ''GenerationExhausted''
   \<and> start 2 1 envLate
       = Exited 1 (historyLate @ [EvGenerateNames 5,
                     EvLog (LogFatal (Thrown ''GenerationExhausted'')), EvExit 1])"
proof -
  have h1: "process_world (start 2 1 envLate)
     = historyLate @ EvGenerateNames 5
         # [EvLog (LogFatal (Thrown ''GenerationExhausted'')), EvExit 1]"
    by (simp add: start_def mainLoop_def numeral_2_eq_2 walletStep_def slotStep_def slotBody_def
        deploy_unfold envLate_def envPoor_def env0_def wal0_def wal1_def alpha_def day_def
        historyLate_def timeClip_def maxTime_def)
  have h2: "generateUniqueNames envLate historyLate 5 = Inl ''GenerationExhausted''"
    by (simp add: envLate_def envPoor_def env0_def historyLate_def)
  from h1 h2 name_generation_failure_is_fatal [OF h1 h2] show ?thesis by (intro conjI)
qed

text \<open>
  That the process does not terminate, as C2 says, does not hold: with a name generator
  that throws at its first call, the process exits with status 1 right after the call.
\<close>

theorem name_generation_failure_counterexample:
  "start 1 1 envNoNames
     = Exited 1 [EvStatus None, EvNow day, EvLog (LogCycleStart day),
                 EvLog (LogUsingWallet ''0xA1''), EvGenerateNames 5,
                 EvLog (LogFatal (Thrown ''GenerationExhausted'')), EvExit 1]"
  by (simp add: start_def mainLoop_def walletStep_def log_def Let_def envNoNames_def env0_def
      wal0_def)

section \<open>The rounds of mainLoop\<close>

lemma gated_append:
  "gated s (xs @ ys) = (gated s xs \<and> gated (foldl gate s xs) ys)"
  by (induction xs arbitrary: s) simp_all

lemma steady_gate: "steady ev \<Longrightarrow> gate s ev = s"
  by (cases "(s, ev)" rule: gate.cases) (simp_all add: steady_def)

lemma steady_gated: "list_all steady evs \<Longrightarrow> gated s evs \<and> foldl gate s evs = s"
  by (induction evs) (simp_all add: steady_gate, simp add: steady_def)

lemma gate_cases:
  "cycleStart ev = None \<Longrightarrow> gate (Some t1) ev = Some t1 \<or> (\<exists>t. ev = EvNow t \<and> t1 + day \<le> t)"
  by (cases "(Some t1, ev)" rule: gate.cases) simp_all

lemma gated_open:
  "gated (Some t1) (mid @ EvLog (LogCycleStart t2) # post) \<Longrightarrow>
   \<exists>t. EvNow t \<in> set mid \<and> t1 + day \<le> t"
proof (induction mid)
  case Nil
  then show ?case by simp
next
  case (Cons ev mid)
  then have c: "cycleStart ev = None"
    and g: "gated (gate (Some t1) ev) (mid @ EvLog (LogCycleStart t2) # post)"
    by simp_all
  from gate_cases [OF c, of t1] show ?case
  proof
    assume "gate (Some t1) ev = Some t1"
    with g Cons.IH show ?thesis by auto
  next
    assume "\<exists>t. ev = EvNow t \<and> t1 + day \<le> t"
    then show ?thesis by auto
  qed
qed

lemma gated_between:
  assumes "gated s (pre @ [EvLog (LogCycleStart t1)] @ mid @ [EvLog (LogCycleStart t2)] @ post)"
  shows "\<exists>t. EvNow t \<in> set mid \<and> t1 + day \<le> t"
proof -
  from assms have "gated (foldl gate s pre)
      (EvLog (LogCycleStart t1) # mid @ EvLog (LogCycleStart t2) # post)"
    by (simp add: gated_append)
  then have "gated (Some t1) (mid @ EvLog (LogCycleStart t2) # post)" by simp
  then show ?thesis by (rule gated_open)
qed

lemma countdown_gated:
  "s = None \<or> s = Some t1 \<Longrightarrow>
   gated s (countdown n ps)
   \<and> (foldl gate s (countdown n ps) = None \<or> foldl gate s (countdown n ps) = Some t1)"
proof (induction ps arbitrary: s)
  case Nil
  then show ?case by (simp add: countdown_Nil)
next
  case (Cons ab ps)
  let ?b = "countdownRound n ab"
  have g: "gated s ?b" by (simp add: countdownRound_def)
  have s': "foldl gate s ?b = None \<or> foldl gate s ?b = Some t1"
    using Cons.prems
    by (cases "t1 + day \<le> fst ab"; cases "t1 + day \<le> snd ab")
      (auto simp add: countdownRound_def)
  from Cons.IH [OF s'] g show ?case
    by (simp add: countdown_Cons gated_append)
qed

lemma round_gated:
  assumes "roundOK r"
  shows "gated None (roundEvents r) \<and> foldl gate None (roundEvents r) = None"
proof -
  let ?t = "startedAt r"
  let ?h = "[EvNow ?t, EvLog (LogCycleStart ?t)]"
  let ?c = "countdown (?t + day) (waits r)"
  from assms have st: "list_all steady (cycleEvents r)" and el: "?t + day \<le> elapsedAt r"
    by (simp_all add: roundOK_def)
  note a = steady_gated [OF st, of "Some ?t"]
  have 1: "gated None (?h @ cycleEvents r)" "foldl gate None (?h @ cycleEvents r) = Some ?t"
    using a by (simp_all add: gated_append)
  from countdown_gated [of "Some ?t" ?t "?t + day" "waits r"]
  have 2: "gated (Some ?t) ?c"
    and 3: "foldl gate (Some ?t) ?c = None \<or> foldl gate (Some ?t) ?c = Some ?t"
    by simp_all
  have 4: "gated None ((?h @ cycleEvents r) @ ?c)"
    using 1 2 by (simp only: gated_append)
  have 5: "foldl gate None ((?h @ cycleEvents r) @ ?c) = None
      \<or> foldl gate None ((?h @ cycleEvents r) @ ?c) = Some ?t"
    using 1(2) 3 by (simp only: foldl_append)
  have e: "roundEvents r = ((?h @ cycleEvents r) @ ?c) @ [EvNow (elapsedAt r)]"
    by (simp add: roundEvents_def cycleOpening_def)
  from 5 have 6: "foldl gate None (roundEvents r) = None"
    unfolding e foldl_append using el by auto
  have 7: "gated None (roundEvents r)"
    unfolding e using 4 by (simp only: gated_append) simp
  from 7 6 show ?thesis ..
qed

lemma rounds_gated:
  "list_all roundOK rs \<Longrightarrow>
   gated None (concat (map roundEvents rs)) \<and> foldl gate None (concat (map roundEvents rs)) = None"
proof (induction rs)
  case Nil
  show ?case by simp
next
  case (Cons r rs)
  then have "roundOK r" "list_all roundOK rs" by simp_all
  from round_gated [OF this(1)] Cons.IH [OF this(2)] show ?case
    by (simp add: gated_append)
qed

lemma remainder_gated: "remainder res k p d tail \<Longrightarrow> gated None tail"
proof (cases res)
  case (BetweenCycles w)
  assume "remainder res k p d tail"
  with BetweenCycles show ?thesis by simp
next
  case (CountingDown w)
  assume "remainder res k p d tail"
  with CountingDown obtain t cyc ps where t: "tail = cycleOpening t cyc @ countdown (t + day) ps"
    and st: "list_all steady cyc"
    by auto
  note a = steady_gated [OF st, of "Some t"]
  have 1: "gated None (cycleOpening t cyc)" "foldl gate None (cycleOpening t cyc) = Some t"
    using a by (simp_all add: cycleOpening_def gated_append)
  from countdown_gated [of "Some t" t "t + day" ps]
  have 2: "gated (Some t) (countdown (t + day) ps)" by simp
  show ?thesis unfolding t using 1 2 by (simp only: gated_append)
next
  case (Rejected err w)
  assume "remainder res k p d tail"
  with Rejected obtain t cyc where t: "tail = cycleOpening t cyc"
    and st: "list_all steady cyc"
    by auto
  note a = steady_gated [OF st, of "Some t"]
  show ?thesis unfolding t using a by (simp add: cycleOpening_def gated_append)
qed

lemma remainder_Suc: "remainder res k p d tail \<Longrightarrow> remainder res (Suc k) p (Suc d) tail"
  by (cases res) simp_all

text \<open>The shape of the history that the rounds of mainLoop leave under an ordinary clock.\<close>

lemma mainRounds_rounds:
  assumes "ordinaryClock e"
  shows "\<exists>rs tail. loop_world (mainRounds k p e w) = w @ concat (map roundEvents rs) @ tail
     \<and> list_all roundOK rs \<and> remainder (mainRounds k p e w) k p (length rs) tail"
proof (induction k arbitrary: w)
  case 0
  show ?case by (intro exI [of _ "[]"]) simp
next
  case (Suc k)
  let ?t = "now e w"
  let ?h = "[EvNow ?t, EvLog (LogCycleStart ?t)]"
  from walletLoop_extends [of e "wallets e" "w @ ?h"]
  obtain evs1 where c: "world_of (walletLoop e (wallets e) (w @ ?h)) = (w @ ?h) @ evs1"
    and st: "list_all steady evs1"
    by (elim exE conjE)
  have nv: "timeClip (?t + 24 * 60 * 60 * 1000) = Some (?t + day)"
    using assms by (rule nextRun_valid)
  have b: "0 \<le> ?t + day" "?t + day \<le> maxTime"
    using ordinaryClock_read [OF assms, of w] day_positive by simp_all
  show ?case
  proof (cases "walletLoop e (wallets e) (w @ ?h)")
    case (Throw err w2)
    with c have w2: "w2 = w @ ?h @ evs1" by simp
    have m: "mainRounds (Suc k) p e w = Rejected err (w @ cycleOpening ?t evs1)"
      using Throw w2 by (simp add: Let_def log_def cycleOpening_def)
    have "remainder (mainRounds (Suc k) p e w) (Suc k) p (length ([] :: round list))
        (cycleOpening ?t evs1)"
      unfolding m using st by auto
    with m show ?thesis
      by (intro exI [of _ "[]"] exI [of _ "cycleOpening ?t evs1"]) simp
  next
    case (Return u w2)
    with c have w2: "w2 = w @ cycleOpening ?t evs1" by (simp add: cycleOpening_def)
    have m: "mainRounds (Suc k) p e w =
      (case waitLoop p e (Some (?t + day)) w2 of
         Waiting w3 \<Rightarrow> CountingDown w3
       | Failed err w3 \<Rightarrow> Rejected err w3
       | Elapsed w3 \<Rightarrow> mainRounds k p e w3)"
      using Return nv by (simp add: Let_def log_def)
    from waitLoop_countdown [OF assms b, of p w2]
    obtain ps where wt: "waiting (?t + day) ps"
      and el: "\<forall>w'. waitLoop p e (Some (?t + day)) w2 = Elapsed w' \<longrightarrow>
            (\<exists>c. w' = w2 @ countdown (?t + day) ps @ [EvNow c] \<and> ?t + day \<le> c)"
      and wa: "\<forall>w'. waitLoop p e (Some (?t + day)) w2 = Waiting w' \<longrightarrow>
            w' = w2 @ countdown (?t + day) ps \<and> length ps = p"
      and nf: "\<forall>err w'. waitLoop p e (Some (?t + day)) w2 \<noteq> Failed err w'"
      by (elim exE conjE)
    show ?thesis
    proof (cases "waitLoop p e (Some (?t + day)) w2")
      case (Failed err w3)
      with nf have False by simp
      then show ?thesis ..
    next
      case (Waiting w3)
      with wa have w3: "w3 = w2 @ countdown (?t + day) ps" and lp: "length ps = p" by simp_all
      let ?tail = "cycleOpening ?t evs1 @ countdown (?t + day) ps"
      have m': "mainRounds (Suc k) p e w = CountingDown (w @ ?tail)"
        unfolding m using Waiting w3 w2 by simp
      have "remainder (mainRounds (Suc k) p e w) (Suc k) p (length ([] :: round list)) ?tail"
        unfolding m' using st wt lp by auto
      with m' show ?thesis
        by (intro exI [of _ "[]"] exI [of _ ?tail]) simp
    next
      case (Elapsed w3)
      with el obtain c where w3: "w3 = w2 @ countdown (?t + day) ps @ [EvNow c]"
        and cn: "?t + day \<le> c"
        by auto
      let ?r = "\<lparr>startedAt = ?t, cycleEvents = evs1, waits = ps, elapsedAt = c\<rparr>"
      have re: "w3 = w @ roundEvents ?r"
        using w3 w2 by (simp add: roundEvents_def)
      have ok: "roundOK ?r" using st wt cn by (simp add: roundOK_def)
      have m': "mainRounds (Suc k) p e w = mainRounds k p e (w @ roundEvents ?r)"
        unfolding m using Elapsed re by simp
      from Suc.IH [of "w @ roundEvents ?r"]
      obtain rs tail where l: "loop_world (mainRounds k p e (w @ roundEvents ?r))
            = (w @ roundEvents ?r) @ concat (map roundEvents rs) @ tail"
        and oks: "list_all roundOK rs"
        and rm: "remainder (mainRounds k p e (w @ roundEvents ?r)) k p (length rs) tail"
        by (elim exE conjE)
      have 1: "loop_world (mainRounds (Suc k) p e w)
          = w @ concat (map roundEvents (?r # rs)) @ tail"
        unfolding m' using l by simp
      have 2: "list_all roundOK (?r # rs)" using ok oks by simp
      have 3: "remainder (mainRounds (Suc k) p e w) (Suc k) p (length (?r # rs)) tail"
        unfolding m' using remainder_Suc [OF rm] by simp
      from 1 2 3 show ?thesis by (intro exI [of _ "?r # rs"] exI [of _ tail] conjI)
    qed
  qed
qed


lemma steady_starts: "list_all steady evs \<Longrightarrow> List.map_filter cycleStart evs = []"
  by (induction evs) (simp_all add: map_filter_simps steady_def)

lemma countdown_starts: "List.map_filter cycleStart (countdown n ps) = []"
  by (induction ps) (simp_all add: countdown_Nil countdown_Cons countdownRound_def map_filter_simps)

lemma round_starts:
  "roundOK r \<Longrightarrow> List.map_filter cycleStart (roundEvents r) = [startedAt r]"
  by (simp add: roundOK_def roundEvents_def cycleOpening_def map_filter_simps steady_starts
      countdown_starts)

lemma rounds_starts:
  "list_all roundOK rs \<Longrightarrow>
   List.map_filter cycleStart (concat (map roundEvents rs)) = map startedAt rs"
  by (induction rs) (simp_all add: map_filter_simps round_starts)

lemma process_loop:
  "\<exists>fin. process_world (start rounds patience e) = loop_world (mainLoop rounds patience e []) @ fin
     \<and> list_all steady fin"
proof (cases "mainLoop rounds patience e []")
  case (BetweenCycles w)
  then show ?thesis by (intro exI [of _ "[]"]) (simp add: start_def)
next
  case (CountingDown w)
  then show ?thesis by (intro exI [of _ "[]"]) (simp add: start_def)
next
  case (Rejected err w)
  then show ?thesis
    by (intro exI [of _ "[EvLog (LogFatal err), EvExit 1]"])
      (simp add: start_def log_def steady_def)
qed

lemma mainLoop_rounds:
  assumes "ordinaryClock e"
  shows "\<exists>rs tail. loop_world (mainLoop rounds patience e [])
        = [EvStatus None] @ concat (map roundEvents rs) @ tail
     \<and> list_all roundOK rs
     \<and> remainder (mainLoop rounds patience e []) rounds patience (length rs) tail"
  using mainRounds_rounds [OF assms, of rounds patience "[EvStatus None]"]
  by (simp add: mainLoop_def)

section \<open>Isolation of failed slots\<close>

lemma countdown_wallets: "List.map_filter walletUsed (countdown n ps) = []"
  by (induction ps) (simp_all add: countdown_Nil countdown_Cons countdownRound_def map_filter_simps)

lemma wallets_round:
  assumes "List.map_filter walletUsed r = ws"
    and "List.map_filter cycleStart r = [t]"
    and "List.map_filter walletUsed evs
      = concat (replicate (length (List.map_filter cycleStart evs)) ws)"
  shows "List.map_filter walletUsed (r @ evs)
      = concat (replicate (length (List.map_filter cycleStart (r @ evs))) ws)"
  using assms by simp

lemma starts_round:
  assumes "List.map_filter cycleStart r = [t]"
  shows "length (List.map_filter cycleStart (r @ evs))
      = Suc (length (List.map_filter cycleStart evs))"
  using assms by simp

text \<open>
  The wallets in the rounds of mainLoop, when the name generator does not throw and the
  clock is ordinary: every started cycle turns to every wallet.
\<close>

lemma mainRounds_wallets:
  assumes "\<And>w'. \<exists>names. generateUniqueNames e w' 5 = Inr names" and "ordinaryClock e"
  shows "\<exists>evs. loop_world (mainRounds k p e w) = w @ evs
     \<and> List.map_filter walletUsed evs
         = concat (replicate (length (List.map_filter cycleStart evs))
             (map wallet_address (wallets e)))
     \<and> (\<forall>w'. mainRounds k p e w = BetweenCycles w'
           \<longrightarrow> length (List.map_filter cycleStart evs) = k)"
proof (induction k arbitrary: w)
  case 0
  show ?case by (intro exI [of _ "[]"]) (simp add: map_filter_simps)
next
  case (Suc k)
  let ?t = "now e w"
  let ?h = "[EvNow ?t, EvLog (LogCycleStart ?t)]"
  let ?ws = "map wallet_address (wallets e)"
  have "returns (walletLoop e (wallets e) (w @ ?h))"
    using assms(1) by (rule walletLoop_returns)
  then obtain u w2 where r: "walletLoop e (wallets e) (w @ ?h) = Return u w2"
    by (cases "walletLoop e (wallets e) (w @ ?h)") simp_all
  from walletLoop_extends [of e "wallets e" "w @ ?h"]
  obtain evs1 where c: "world_of (walletLoop e (wallets e) (w @ ?h)) = (w @ ?h) @ evs1"
    and st: "list_all steady evs1"
    by (elim exE conjE)
  from walletLoop_names [of e "wallets e" "w @ ?h"]
  obtain evs1' where c': "world_of (walletLoop e (wallets e) (w @ ?h)) = (w @ ?h) @ evs1'"
    and wu': "returns (walletLoop e (wallets e) (w @ ?h)) \<longrightarrow>
       List.map_filter walletUsed evs1' = ?ws \<and> generatorHeld e (w @ ?h) evs1'"
    by (elim exE conjE)
  from c c' have "evs1' = evs1" by simp
  with wu' r have wu: "List.map_filter walletUsed evs1 = ?ws" by simp
  note cs = steady_starts [OF st]
  from c r have w2: "w2 = w @ ?h @ evs1" by simp
  have nv: "timeClip (?t + 24 * 60 * 60 * 1000) = Some (?t + day)"
    using assms(2) by (rule nextRun_valid)
  have b: "0 \<le> ?t + day" "?t + day \<le> maxTime"
    using ordinaryClock_read [OF assms(2), of w] day_positive by simp_all
  have m: "mainRounds (Suc k) p e w =
      (case waitLoop p e (Some (?t + day)) w2 of
         Waiting w3 \<Rightarrow> CountingDown w3
       | Failed err w3 \<Rightarrow> Rejected err w3
       | Elapsed w3 \<Rightarrow> mainRounds k p e w3)"
    using r nv by (simp add: Let_def log_def)
  from waitLoop_countdown [OF assms(2) b, of p w2]
  obtain ps where el: "\<forall>w'. waitLoop p e (Some (?t + day)) w2 = Elapsed w' \<longrightarrow>
            (\<exists>c. w' = w2 @ countdown (?t + day) ps @ [EvNow c] \<and> ?t + day \<le> c)"
    and wa: "\<forall>w'. waitLoop p e (Some (?t + day)) w2 = Waiting w' \<longrightarrow>
            w' = w2 @ countdown (?t + day) ps \<and> length ps = p"
    and nf: "\<forall>err w'. waitLoop p e (Some (?t + day)) w2 \<noteq> Failed err w'"
    by (elim exE conjE)
  show ?case
  proof (cases "waitLoop p e (Some (?t + day)) w2")
    case (Failed err w3)
    with nf have False by simp
    then show ?thesis ..
  next
    case (Waiting w3)
    with wa have w3: "w3 = w2 @ countdown (?t + day) ps" by simp
    let ?evs = "?h @ evs1 @ countdown (?t + day) ps"
    have m': "mainRounds (Suc k) p e w = CountingDown (w @ ?evs)"
      unfolding m using Waiting w3 w2 by simp
    have 1: "List.map_filter walletUsed ?evs = ?ws"
      using wu by (simp add: map_filter_simps countdown_wallets)
    have 2: "length (List.map_filter cycleStart ?evs) = 1"
      using cs by (simp add: map_filter_simps countdown_starts)
    have 3: "List.map_filter walletUsed ?evs
        = concat (replicate (length (List.map_filter cycleStart ?evs)) ?ws)"
      unfolding 1 2 by simp
    from m' 3 show ?thesis by (intro exI [of _ ?evs]) simp
  next
    case (Elapsed w3)
    with el obtain c where w3: "w3 = w2 @ countdown (?t + day) ps @ [EvNow c]" by auto
    let ?r = "?h @ evs1 @ countdown (?t + day) ps @ [EvNow c]"
    have re: "w3 = w @ ?r" using w3 w2 by simp
    have m': "mainRounds (Suc k) p e w = mainRounds k p e (w @ ?r)"
      unfolding m using Elapsed re by simp
    from Suc.IH [of "w @ ?r"]
    obtain evs where l: "loop_world (mainRounds k p e (w @ ?r)) = (w @ ?r) @ evs"
      and i1: "List.map_filter walletUsed evs
         = concat (replicate (length (List.map_filter cycleStart evs)) ?ws)"
      and i2: "\<forall>w'. mainRounds k p e (w @ ?r) = BetweenCycles w'
           \<longrightarrow> length (List.map_filter cycleStart evs) = k"
      by (elim exE conjE)
    have 1: "List.map_filter walletUsed ?r = ?ws"
      using wu by (simp add: map_filter_simps countdown_wallets)
    have 2: "List.map_filter cycleStart ?r = [?t]"
      using cs by (simp add: map_filter_simps countdown_starts)
    have 3: "List.map_filter walletUsed (?r @ evs)
        = concat (replicate (length (List.map_filter cycleStart (?r @ evs))) ?ws)"
      using 1 2 i1 by (rule wallets_round)
    have 4: "\<forall>w'. mainRounds (Suc k) p e w = BetweenCycles w'
           \<longrightarrow> length (List.map_filter cycleStart (?r @ evs)) = Suc k"
      unfolding m' starts_round [OF 2] using i2 by simp
    have 5: "loop_world (mainRounds (Suc k) p e w) = w @ (?r @ evs)"
      unfolding m' using l by simp
    from 5 3 4 show ?thesis by (intro exI [of _ "?r @ evs"] conjI)
  qed
qed

lemma process_wallets:
  assumes "\<And>w'. \<exists>names. generateUniqueNames e w' 5 = Inr names" and "ordinaryClock e"
  shows "List.map_filter walletUsed (process_world (start rounds patience e))
      = concat (replicate
          (length (List.map_filter cycleStart (process_world (start rounds patience e))))
          (map wallet_address (wallets e)))
     \<and> (\<forall>w'. mainLoop rounds patience e [] = BetweenCycles w'
           \<longrightarrow> length (List.map_filter cycleStart w') = rounds)"
proof -
  from mainRounds_wallets [OF assms, of rounds patience "[EvStatus None]"]
  obtain evs where l: "loop_world (mainRounds rounds patience e [EvStatus None])
        = [EvStatus None] @ evs"
    and 1: "List.map_filter walletUsed evs
         = concat (replicate (length (List.map_filter cycleStart evs))
             (map wallet_address (wallets e)))"
    and 2: "\<forall>w'. mainRounds rounds patience e [EvStatus None] = BetweenCycles w'
           \<longrightarrow> length (List.map_filter cycleStart evs) = rounds"
    by (elim exE conjE)
  have nr: "mainRounds rounds patience e [EvStatus None] \<noteq> Rejected err w'" for err w'
    using assms by (rule mainRounds_running)
  have p: "process_world (start rounds patience e) = [EvStatus None] @ evs"
  proof (cases "mainRounds rounds patience e [EvStatus None]")
    case (BetweenCycles w')
    with l show ?thesis by (simp add: start_def mainLoop_def)
  next
    case (CountingDown w')
    with l show ?thesis by (simp add: start_def mainLoop_def)
  next
    case (Rejected err w')
    with nr [of err w'] have False by (elim notE)
    then show ?thesis ..
  qed
  have a: "List.map_filter walletUsed (process_world (start rounds patience e))
      = concat (replicate
          (length (List.map_filter cycleStart (process_world (start rounds patience e))))
          (map wallet_address (wallets e)))"
    unfolding p using 1 by (simp add: map_filter_simps)
  have b: "\<forall>w'. mainLoop rounds patience e [] = BetweenCycles w'
           \<longrightarrow> length (List.map_filter cycleStart w') = rounds"
  proof (intro allI impI)
    fix w'
    assume "mainLoop rounds patience e [] = BetweenCycles w'"
    then have x: "mainRounds rounds patience e [EvStatus None] = BetweenCycles w'"
      by (simp add: mainLoop_def)
    with l have "w' = [EvStatus None] @ evs" by simp
    with 2 x show "length (List.map_filter cycleStart w') = rounds"
      by (simp add: map_filter_simps)
  qed
  from a b show ?thesis ..
qed

lemma envTick_clock: "ordinaryClock envTick"
  by (simp add: ordinaryClock_def envTick_def envPoor_def env0_def day_def maxTime_def min_def)

text \<open>
  C4. A slot returns whatever happens in its try block: an exception of deployToken or
  of sendToRandomAddresses ends in the log line of the catch block, followed by the
  delay. The loop over the names of a wallet returns and records one outcome per name,
  in the order of the names, whichever of them fail. In a pass over the wallets, and in
  the whole history of the process over all its cycles, the names of the recorded slot
  outcomes are exactly the names that the calls of the name generator have returned, in
  order: every generated name gets its slot, whatever happened in the slots before it.
  When the name generator does not throw, the pass over the wallets returns with every
  wallet turned to, in order, and one call of the generator per wallet. When moreover
  the clock is ordinary, so that the countdown does not throw, then for any number of
  rounds and any patience the process is never left, every cycle it has started has
  turned to every wallet, in order, and once the rounds are used up as many cycles have
  started as there were rounds.
\<close>

theorem slot_failures_isolated:
  "(\<exists>w'. slotStep e wal i n w = Return () w'
      \<and> (\<forall>err w1. slotBody e wal i n w = Throw err w1 \<longrightarrow>
            w' = w1 @ [EvLog (LogSlotFailed (name n) err), EvWait 3000]))
   \<and> (\<exists>w'. slotLoop e wal i names w = Return () w'
      \<and> map fst (List.map_filter slotOutcome (emitted w w')) = map name names)
   \<and> map fst (List.map_filter slotOutcome (emitted w (world_of (walletLoop e ws w))))
       = generatedNames e w (emitted w (world_of (walletLoop e ws w)))
   \<and> map fst (List.map_filter slotOutcome (process_world (start rounds patience e)))
       = generatedNames e [] (process_world (start rounds patience e))
   \<and> ((\<forall>w0. \<exists>ns. generateUniqueNames e w0 5 = Inr ns) \<longrightarrow>
        (\<exists>w'. walletLoop e ws w = Return () w'
           \<and> List.map_filter walletUsed (emitted w w') = map wallet_address ws
           \<and> length (filter isGenerateNames (emitted w w')) = length ws)
        \<and> (ordinaryClock e \<longrightarrow>
             (\<exists>w'. start rounds patience e = Running w')
             \<and> List.map_filter walletUsed (process_world (start rounds patience e))
                 = concat (replicate
                     (length (List.map_filter cycleStart (process_world (start rounds patience e))))
                     (map wallet_address (wallets e)))
             \<and> (\<forall>w'. mainLoop rounds patience e [] = BetweenCycles w'
                   \<longrightarrow> length (List.map_filter cycleStart w') = rounds)))"
proof (intro conjI impI allI)
  show "\<exists>w'. slotStep e wal i n w = Return () w'
      \<and> (\<forall>err w1. slotBody e wal i n w = Throw err w1 \<longrightarrow>
            w' = w1 @ [EvLog (LogSlotFailed (name n) err), EvWait 3000])"
    by (cases "slotBody e wal i n w") (simp_all add: slotStep_def log_def)
next
  from slotLoop_extends [of e wal i names w]
  obtain evs where "slotLoop e wal i names w = Return () (w @ evs)"
    "map fst (List.map_filter slotOutcome evs) = map name names"
    by (elim exE conjE)
  then show "\<exists>w'. slotLoop e wal i names w = Return () w'
      \<and> map fst (List.map_filter slotOutcome (emitted w w')) = map name names"
    by (intro exI [of _ "w @ evs"]) simp
next
  from walletLoop_names [of e ws w]
  obtain evs where "world_of (walletLoop e ws w) = w @ evs"
    "map fst (List.map_filter slotOutcome evs) = generatedNames e w evs"
    by (elim exE conjE)
  then show "map fst (List.map_filter slotOutcome (emitted w (world_of (walletLoop e ws w))))
       = generatedNames e w (emitted w (world_of (walletLoop e ws w)))"
    by simp
next
  show "map fst (List.map_filter slotOutcome (process_world (start rounds patience e)))
       = generatedNames e [] (process_world (start rounds patience e))"
    by (rule process_names)
next
  assume g: "\<forall>w0. \<exists>ns. generateUniqueNames e w0 5 = Inr ns"
  then have r: "returns (walletLoop e ws w)" by (intro walletLoop_returns) simp
  from walletLoop_extends [of e ws w]
  obtain evs where x: "world_of (walletLoop e ws w) = w @ evs"
    "returns (walletLoop e ws w) \<longrightarrow> length (filter isGenerateNames evs) = length ws"
    by (elim exE conjE)
  from walletLoop_names [of e ws w]
  obtain evs' where y: "world_of (walletLoop e ws w) = w @ evs'"
    "returns (walletLoop e ws w) \<longrightarrow>
       List.map_filter walletUsed evs' = map wallet_address ws \<and> generatorHeld e w evs'"
    by (elim exE conjE)
  from x(1) y(1) have "evs' = evs" by simp
  with r x y show "\<exists>w'. walletLoop e ws w = Return () w'
           \<and> List.map_filter walletUsed (emitted w w') = map wallet_address ws
           \<and> length (filter isGenerateNames (emitted w w')) = length ws"
    by (cases "walletLoop e ws w") simp_all
next
  assume g: "\<forall>w0. \<exists>ns. generateUniqueNames e w0 5 = Inr ns" and c: "ordinaryClock e"
  have nr: "mainRounds rounds patience e [EvStatus None] \<noteq> Rejected err w'" for err w'
    using g c by (intro mainRounds_running) simp_all
  show "\<exists>w'. start rounds patience e = Running w'"
  proof (cases "mainRounds rounds patience e [EvStatus None]")
    case (BetweenCycles w')
    then show ?thesis by (simp add: start_def mainLoop_def)
  next
    case (CountingDown w')
    then show ?thesis by (simp add: start_def mainLoop_def)
  next
    case (Rejected err w')
    with nr [of err w'] have False by (elim notE)
    then show ?thesis ..
  qed
next
  assume g: "\<forall>w0. \<exists>ns. generateUniqueNames e w0 5 = Inr ns" and c: "ordinaryClock e"
  from g have g': "\<And>w0. \<exists>ns. generateUniqueNames e w0 5 = Inr ns" by simp
  from process_wallets [OF g' c, of rounds patience]
  show "List.map_filter walletUsed (process_world (start rounds patience e))
      = concat (replicate
          (length (List.map_filter cycleStart (process_world (start rounds patience e))))
          (map wallet_address (wallets e)))"
    by (elim conjE)
next
  fix w'
  assume g: "\<forall>w0. \<exists>ns. generateUniqueNames e w0 5 = Inr ns" and c: "ordinaryClock e"
    and b: "mainLoop rounds patience e [] = BetweenCycles w'"
  from g have g': "\<And>w0. \<exists>ns. generateUniqueNames e w0 5 = Inr ns" by simp
  from process_wallets [OF g' c, of rounds patience] b
  show "length (List.map_filter cycleStart w') = rounds"
    by simp
qed

theorem slot_failures_isolated_witness:
  "slotBody envTick wal0 0 alpha []
     = Throw BalanceTooLow [EvCompile ''contract Token {}'', EvGetBalance ''0xA1'',
                            EvLog (LogBalance ''0xA1'' 5)]
   \<and> slotStep envTick wal0 0 alpha []
     = Return () ([EvCompile ''contract Token {}'', EvGetBalance ''0xA1'',
                   EvLog (LogBalance ''0xA1'' 5)]
                  @ [EvLog (LogSlotFailed (name alpha) BalanceTooLow), EvWait 3000])
   \<and> (\<forall>w0. \<exists>ns. generateUniqueNames envTick w0 5 = Inr ns)
   \<and> ordinaryClock envTick
   \<and> (\<exists>w'. slotLoop envTick wal0 0 [alpha, beta] [] = Return () w'
      \<and> List.map_filter slotOutcome (emitted [] w') = [(''alpha'', False), (''beta'', False)])
   \<and> (\<exists>w'. walletLoop envTick [wal0, wal1] [] = Return () w'
      \<and> List.map_filter walletUsed (emitted [] w') = [''0xA1'', ''0xA2''])
   \<and> map fst (List.map_filter slotOutcome (process_world (start 2 3 envTick)))
       = [''alpha'', ''alpha'']
   \<and> (\<exists>w'. start 2 3 envTick = Running w')
   \<and> List.map_filter walletUsed (process_world (start 2 3 envTick)) = [''0xA1'', ''0xA1'']
   \<and> mainLoop 2 3 envTick [] = BetweenCycles (process_world (start 2 3 envTick))
   \<and> length (List.map_filter cycleStart (process_world (start 2 3 envTick))) = 2"
proof -
  have b: "slotBody envTick wal0 0 alpha []
     = Throw BalanceTooLow [EvCompile ''contract Token {}'', EvGetBalance ''0xA1'',
                            EvLog (LogBalance ''0xA1'' 5)]"
    by (simp add: envTick_def envPoor_def env0_def slotBody_def deploy_unfold alpha_def wal0_def)
  have g: "\<forall>w0. \<exists>ns. generateUniqueNames envTick w0 5 = Inr ns"
    by (simp add: envTick_def envPoor_def env0_def)
  note c = envTick_clock
  have s: "slotLoop envTick wal0 0 [alpha, beta] [] = Return ()
      (world_of (slotLoop envTick wal0 0 [alpha, beta] []))
    \<and> List.map_filter slotOutcome (emitted [] (world_of (slotLoop envTick wal0 0 [alpha, beta] [])))
       = [(''alpha'', False), (''beta'', False)]"
    by (simp add: envTick_def envPoor_def env0_def slotStep_def slotBody_def deploy_unfold
        alpha_def beta_def wal0_def emitted_def)
  note t = slot_failures_isolated [of envTick wal0 0 alpha "[]" "[alpha, beta]" "[wal0, wal1]" 2 3]
  from t obtain w' where 1: "slotStep envTick wal0 0 alpha [] = Return () w'"
    and 2: "\<forall>err w1. slotBody envTick wal0 0 alpha [] = Throw err w1 \<longrightarrow>
            w' = w1 @ [EvLog (LogSlotFailed (name alpha) err), EvWait 3000]"
    by (elim conjE exE)
  from 1 2 [rule_format, OF b] have x: "slotStep envTick wal0 0 alpha []
     = Return () ([EvCompile ''contract Token {}'', EvGetBalance ''0xA1'',
                   EvLog (LogBalance ''0xA1'' 5)]
                  @ [EvLog (LogSlotFailed (name alpha) BalanceTooLow), EvWait 3000])"
    by simp
  from t have p: "map fst (List.map_filter slotOutcome (process_world (start 2 3 envTick)))
       = generatedNames envTick [] (process_world (start 2 3 envTick))"
    by (elim conjE)
  from t have "(\<forall>w0. \<exists>ns. generateUniqueNames envTick w0 5 = Inr ns) \<longrightarrow>
        (\<exists>w'. walletLoop envTick [wal0, wal1] [] = Return () w'
           \<and> List.map_filter walletUsed (emitted [] w') = map wallet_address [wal0, wal1]
           \<and> length (filter isGenerateNames (emitted [] w')) = length [wal0, wal1])
        \<and> (ordinaryClock envTick \<longrightarrow>
             (\<exists>w'. start 2 3 envTick = Running w')
             \<and> List.map_filter walletUsed (process_world (start 2 3 envTick))
                 = concat (replicate
                     (length (List.map_filter cycleStart (process_world (start 2 3 envTick))))
                     (map wallet_address (wallets envTick)))
             \<and> (\<forall>w'. mainLoop 2 3 envTick [] = BetweenCycles w'
                   \<longrightarrow> length (List.map_filter cycleStart w') = 2))"
    by (elim conjE)
  with g c have u: "\<exists>w'. walletLoop envTick [wal0, wal1] [] = Return () w'
           \<and> List.map_filter walletUsed (emitted [] w') = map wallet_address [wal0, wal1]
           \<and> length (filter isGenerateNames (emitted [] w')) = length [wal0, wal1]"
    and r: "\<exists>w'. start 2 3 envTick = Running w'"
    and wu: "List.map_filter walletUsed (process_world (start 2 3 envTick))
                 = concat (replicate
                     (length (List.map_filter cycleStart (process_world (start 2 3 envTick))))
                     (map wallet_address (wallets envTick)))"
    and bc: "\<forall>w'. mainLoop 2 3 envTick [] = BetweenCycles w'
                   \<longrightarrow> length (List.map_filter cycleStart w') = 2"
    by simp_all
  have m: "mainLoop 2 3 envTick [] = BetweenCycles (process_world (start 2 3 envTick))"
    by (simp add: start_def mainLoop_def numeral_2_eq_2 numeral_3_eq_3 walletStep_def
        slotStep_def slotBody_def deploy_unfold envTick_def envPoor_def env0_def wal0_def
        alpha_def timeClip_def maxTime_def log_def)
  note n = bc [rule_format, OF m]
  have ws: "map wallet_address (wallets envTick) = [''0xA1'']"
    by (simp add: envTick_def envPoor_def env0_def wal0_def)
  have wu': "List.map_filter walletUsed (process_world (start 2 3 envTick)) = [''0xA1'', ''0xA1'']"
    unfolding wu n ws by (simp add: numeral_2_eq_2)
  from u have u': "\<exists>w'. walletLoop envTick [wal0, wal1] [] = Return () w'
      \<and> List.map_filter walletUsed (emitted [] w') = [''0xA1'', ''0xA2'']"
    by (auto simp add: wal0_def wal1_def)
  have gn: "generatedNames envTick [] (process_world (start 2 3 envTick)) = [''alpha'', ''alpha'']"
    by (simp add: start_def mainLoop_def numeral_2_eq_2 numeral_3_eq_3 walletStep_def
        slotStep_def slotBody_def deploy_unfold envTick_def envPoor_def env0_def wal0_def
        alpha_def timeClip_def maxTime_def)
  from s have l: "\<exists>w'. slotLoop envTick wal0 0 [alpha, beta] [] = Return () w'
      \<and> List.map_filter slotOutcome (emitted [] w') = [(''alpha'', False), (''beta'', False)]"
    by (intro exI [of _ "world_of (slotLoop envTick wal0 0 [alpha, beta] [])"])
  from b x g c l u' p [unfolded gn] r wu' m n show ?thesis by (intro conjI)
qed

section \<open>The scheduler\<close>

text \<open>
  Outside the ordinary clocks the countdown loop behaves differently. When the start of the
  cycle lies in the last 24 hours of the range of Date, nextRun is an Invalid Date, the test
  of the loop is false at once and the loop is left without any countdown. When the
  remaining time leaves the range of Date, toISOString throws and the loop is left by
  that exception.
\<close>

lemma waitLoop_invalid_nextRun:
  "waitLoop (Suc k) e None w = Elapsed (w @ [EvNow (now e w)])"
  by (simp add: Let_def)

lemma waitLoop_invalid_remaining:
  assumes "now e w < n" and "timeClip (n - now e (w @ [EvNow (now e w)])) = None"
  shows "waitLoop (Suc k) e (Some n) w
    = Failed (Thrown ''Invalid time value'')
        (w @ [EvNow (now e w), EvNow (now e (w @ [EvNow (now e w)]))])"
  using assms by (simp add: Let_def)

text \<open>
  C8. Time is what new Date() returns, and the clock is ordinary: every reading lies
  between 0 and the end of the range of Date minus 24 hours, so that nextRun and the
  remaining time are valid dates. Then, for every number of rounds, every patience and
  every behaviour of the other collaborators:

  \<^item> in the history of the process, between the start of a cycle at time t1 and any later
    start of a cycle there is a clock read that has reached t1 plus 24 hours;

  \<^item> the history of mainLoop is the status line, then a sequence of complete rounds, then
    a remainder. A complete round is: the clock read t and the line that starts the
    cycle at t; the events of the cycle, none of which starts a cycle, reads the clock or
    shows a countdown; then the countdown, one step for each test that found the clock
    below t plus 24 hours, each step being the test's clock read, a second clock read, the
    status box showing t plus 24 hours minus that second read, and a wait of 1000 ms; then
    the one clock read that has reached t plus 24 hours, after which the next round, if
    any, starts at once;

  \<^item> the remainder is empty exactly when the rounds of the model are used up, and then
    the number of complete rounds is the number of rounds; otherwise it is a started
    cycle that is still counting down below its t plus 24 hours after patience many
    steps, or a started cycle that threw;

  \<^item> so the lines that start a cycle are one for each complete round, in order, then
    those of the remainder.
\<close>

theorem no_early_cycle:
  assumes "ordinaryClock e"
  shows "(\<forall>pre t1 mid t2 post.
       process_world (start rounds patience e)
         = pre @ [EvLog (LogCycleStart t1)] @ mid @ [EvLog (LogCycleStart t2)] @ post
       \<longrightarrow> (\<exists>t. EvNow t \<in> set mid \<and> t1 + 24 * 60 * 60 * 1000 \<le> t))
   \<and> (\<exists>rs tail.
        loop_world (mainLoop rounds patience e [])
          = [EvStatus None] @ concat (map roundEvents rs) @ tail
        \<and> list_all roundOK rs
        \<and> remainder (mainLoop rounds patience e []) rounds patience (length rs) tail
        \<and> List.map_filter cycleStart (loop_world (mainLoop rounds patience e []))
            = map startedAt rs @ List.map_filter cycleStart tail)"
proof -
  from mainLoop_rounds [OF assms, of rounds patience]
  obtain rs tail where l: "loop_world (mainLoop rounds patience e [])
        = [EvStatus None] @ concat (map roundEvents rs) @ tail"
    and ok: "list_all roundOK rs"
    and rm: "remainder (mainLoop rounds patience e []) rounds patience (length rs) tail"
    by (elim exE conjE)
  from process_loop [of rounds patience e]
  obtain fin where p: "process_world (start rounds patience e)
        = loop_world (mainLoop rounds patience e []) @ fin"
    and sf: "list_all steady fin"
    by (elim exE conjE)
  note g1 = rounds_gated [OF ok]
  note g2 = remainder_gated [OF rm]
  have g3: "gated (foldl gate None tail) fin"
    using steady_gated [OF sf] by simp
  have g: "gated None (process_world (start rounds patience e))"
    unfolding p l using g1 g2 g3 by (simp add: gated_append)
  have safety: "\<exists>t. EvNow t \<in> set mid \<and> t1 + 24 * 60 * 60 * 1000 \<le> t"
    if "process_world (start rounds patience e)
         = pre @ [EvLog (LogCycleStart t1)] @ mid @ [EvLog (LogCycleStart t2)] @ post"
    for pre t1 mid t2 post
  proof -
    from g that
    have "gated None (pre @ [EvLog (LogCycleStart t1)] @ mid @ [EvLog (LogCycleStart t2)] @ post)"
      by simp
    from gated_between [OF this] show ?thesis by (simp add: day_def)
  qed
  have starts: "List.map_filter cycleStart (loop_world (mainLoop rounds patience e []))
            = map startedAt rs @ List.map_filter cycleStart tail"
    unfolding l by (simp add: map_filter_simps rounds_starts [OF ok])
  from l ok rm starts
  have "\<exists>rs tail.
        loop_world (mainLoop rounds patience e [])
          = [EvStatus None] @ concat (map roundEvents rs) @ tail
        \<and> list_all roundOK rs
        \<and> remainder (mainLoop rounds patience e []) rounds patience (length rs) tail
        \<and> List.map_filter cycleStart (loop_world (mainLoop rounds patience e []))
            = map startedAt rs @ List.map_filter cycleStart tail"
    by (intro exI [of _ rs] exI [of _ tail] conjI)
  with safety show ?thesis by (intro conjI allI impI)
qed

theorem no_early_cycle_witness:
  "ordinaryClock envTick
   \<and> process_world (start 2 3 envTick)
     = [EvStatus None, EvNow 7200000] @ [EvLog (LogCycleStart 7200000)]
       @ [EvLog (LogUsingWallet ''0xA1''), EvGenerateNames 5, EvLog (LogGeneratedNames [''alpha'']),
          EvCompile ''contract Token {}'', EvGetBalance ''0xA1'', EvLog (LogBalance ''0xA1'' 5),
          EvLog (LogSlotFailed ''alpha'' BalanceTooLow), EvWait 3000,
          EvNow 79200000, EvNow 86400000, EvStatus (Some 7200000), EvWait 1000,
          EvNow 108000000, EvNow 115200000]
       @ [EvLog (LogCycleStart 115200000)]
       @ [EvLog (LogUsingWallet ''0xA1''), EvGenerateNames 5, EvLog (LogGeneratedNames [''alpha'']),
          EvCompile ''contract Token {}'', EvGetBalance ''0xA1'', EvLog (LogBalance ''0xA1'' 5),
          EvLog (LogSlotFailed ''alpha'' BalanceTooLow), EvWait 3000,
          EvNow 187200000, EvNow 194400000, EvStatus (Some 7200000), EvWait 1000,
          EvNow 216000000]
   \<and> (\<exists>t. EvNow t \<in> set [EvLog (LogUsingWallet ''0xA1''), EvGenerateNames 5,
          EvLog (LogGeneratedNames [''alpha'']),
          EvCompile ''contract Token {}'', EvGetBalance ''0xA1'', EvLog (LogBalance ''0xA1'' 5),
          EvLog (LogSlotFailed ''alpha'' BalanceTooLow), EvWait 3000,
          EvNow 79200000, EvNow 86400000, EvStatus (Some 7200000), EvWait 1000,
          EvNow 108000000, EvNow 115200000]
        \<and> 7200000 + 24 * 60 * 60 * 1000 \<le> t)
   \<and> (\<exists>rs.
        loop_world (mainLoop 2 3 envTick []) = [EvStatus None] @ concat (map roundEvents rs)
        \<and> list_all roundOK rs
        \<and> length rs = 2
        \<and> map startedAt rs = [7200000, 115200000])"
proof -
  have r: "process_world (start 2 3 envTick)
     = [EvStatus None, EvNow 7200000] @ [EvLog (LogCycleStart 7200000)]
       @ [EvLog (LogUsingWallet ''0xA1''), EvGenerateNames 5, EvLog (LogGeneratedNames [''alpha'']),
          EvCompile ''contract Token {}'', EvGetBalance ''0xA1'', EvLog (LogBalance ''0xA1'' 5),
          EvLog (LogSlotFailed ''alpha'' BalanceTooLow), EvWait 3000,
          EvNow 79200000, EvNow 86400000, EvStatus (Some 7200000), EvWait 1000,
          EvNow 108000000, EvNow 115200000]
       @ [EvLog (LogCycleStart 115200000)]
       @ [EvLog (LogUsingWallet ''0xA1''), EvGenerateNames 5, EvLog (LogGeneratedNames [''alpha'']),
          EvCompile ''contract Token {}'', EvGetBalance ''0xA1'', EvLog (LogBalance ''0xA1'' 5),
          EvLog (LogSlotFailed ''alpha'' BalanceTooLow), EvWait 3000,
          EvNow 187200000, EvNow 194400000, EvStatus (Some 7200000), EvWait 1000,
          EvNow 216000000]"
    by (simp add: start_def mainLoop_def numeral_2_eq_2 numeral_3_eq_3 walletStep_def
        slotStep_def slotBody_def deploy_unfold envTick_def envPoor_def env0_def wal0_def
        alpha_def timeClip_def maxTime_def log_def)
  note c = envTick_clock
  note t = no_early_cycle [OF c, of 2 3]
  from t have c1: "\<forall>pre t1 mid t2 post.
       process_world (start 2 3 envTick)
         = pre @ [EvLog (LogCycleStart t1)] @ mid @ [EvLog (LogCycleStart t2)] @ post
       \<longrightarrow> (\<exists>t. EvNow t \<in> set mid \<and> t1 + 24 * 60 * 60 * 1000 \<le> t)"
    by (rule conjunct1)
  from t have c2: "\<exists>rs tail.
        loop_world (mainLoop 2 3 envTick [])
          = [EvStatus None] @ concat (map roundEvents rs) @ tail
        \<and> list_all roundOK rs
        \<and> remainder (mainLoop 2 3 envTick []) 2 3 (length rs) tail
        \<and> List.map_filter cycleStart (loop_world (mainLoop 2 3 envTick []))
            = map startedAt rs @ List.map_filter cycleStart tail"
    by (rule conjunct2)
  have m: "mainLoop 2 3 envTick [] = BetweenCycles (process_world (start 2 3 envTick))"
    by (simp add: start_def mainLoop_def numeral_2_eq_2 numeral_3_eq_3 walletStep_def
        slotStep_def slotBody_def deploy_unfold envTick_def envPoor_def env0_def wal0_def
        alpha_def timeClip_def maxTime_def log_def)
  from c2 obtain rs tail where l: "loop_world (mainLoop 2 3 envTick [])
          = [EvStatus None] @ concat (map roundEvents rs) @ tail"
    and ok: "list_all roundOK rs"
    and rm: "remainder (mainLoop 2 3 envTick []) 2 3 (length rs) tail"
    and st: "List.map_filter cycleStart (loop_world (mainLoop 2 3 envTick []))
            = map startedAt rs @ List.map_filter cycleStart tail"
    by (elim exE conjE)
  from rm have tl: "tail = []" and n: "length rs = 2"
    unfolding m by simp_all
  have l': "loop_world (mainLoop 2 3 envTick []) = [EvStatus None] @ concat (map roundEvents rs)"
    using l tl by simp
  have "List.map_filter cycleStart (loop_world (mainLoop 2 3 envTick []))
      = [7200000, 115200000]"
    unfolding m loop_world.simps r by (simp add: map_filter_simps)
  with st tl have sa: "map startedAt rs = [7200000, 115200000]"
    by (simp add: map_filter_simps)
  from l' ok n sa have c3: "\<exists>rs.
        loop_world (mainLoop 2 3 envTick []) = [EvStatus None] @ concat (map roundEvents rs)
        \<and> list_all roundOK rs
        \<and> length rs = 2
        \<and> map startedAt rs = [7200000, 115200000]"
    by (intro exI [of _ rs] conjI)
  from c r c1 [rule_format, OF r] c3 show ?thesis
    by (intro conjI)
qed

end
